theory Spec2Isabelle
  imports Complex_Main "HOL-Library.Char_ord" "HOL-Library.List_Lexorder"
begin

section \<open>Data model\<close>

text \<open>
  Modelled from the spec: the class \<^verbatim>\<open>BMRTBenchmarkResult\<close> is imported from
  \<^verbatim>\<open>conbench.job\<close>, which is not among the sources.  The record has the
  attributes of a benchmark result that \<^verbatim>\<open>conbench/app/benchmarks.py\<close> reads:
  identity, case, hardware, context, \<^verbatim>\<open>started_at\<close> (a float timestamp of
  which only the order is used), the optional \<^verbatim>\<open>mean\<close> and the \<^verbatim>\<open>unit\<close>.
  The attribute \<^verbatim>\<open>id\<close> is called \<open>bmr_id\<close> here.
\<close>

record BMRTBenchmarkResult =
  bmr_id :: string
  case_id :: string
  case_text_id :: string
  hardware_id :: string
  hardware_name :: string
  context_id :: string
  started_at :: real
  mean :: "real option"
  unit :: string
  ui_hardware_short :: string

text \<open>The Python exceptions that the modelled code can raise.\<close>

datatype error = KeyError string | ValueError string

section \<open>Newest result of a list\<close>

text \<open>
  \<^verbatim>\<open>max(results, key=lambda r: r.started_at)\<close>: the builtin raises
  \<^verbatim>\<open>ValueError\<close> on an empty sequence; otherwise it walks the sequence
  and replaces the current maximum only by an item whose key is strictly greater.
\<close>

fun max_key :: "('a \<Rightarrow> real) \<Rightarrow> 'a \<Rightarrow> 'a list \<Rightarrow> 'a" where
  "max_key key best [] = best"
| "max_key key best (x # xs) = max_key key (if key best < key x then x else best) xs"

definition newest_of_many_results :: "BMRTBenchmarkResult list \<Rightarrow> error + BMRTBenchmarkResult" where
  "newest_of_many_results results =
     (case results of
        [] \<Rightarrow> Inl (ValueError ''max() arg is an empty sequence'')
      | r # rest \<Rightarrow> Inr (max_key started_at r rest))"

section \<open>The benchmark result cache\<close>

text \<open>
  Modelled from the spec: the dictionary \<^verbatim>\<open>bmrt_cache\<close> is imported from
  \<^verbatim>\<open>conbench.job\<close>, which is not among the sources.  It holds the view
  \<^verbatim>\<open>by_benchmark_name\<close> (benchmark name to the list of results with that
  name, in the order of the snapshot build) and \<^verbatim>\<open>meta\<close>.  The view is, as
  the comment in \<^verbatim>\<open>show_benchmark_cases\<close> records, a \<^verbatim>\<open>defaultdict(list)\<close>,
  the map that inserts missing keys.  A \<^verbatim>\<open>defaultdict\<close> is a dictionary with
  an attribute \<^verbatim>\<open>default_factory\<close>: when it is \<^verbatim>\<open>None\<close> the dictionary
  behaves as a plain \<^verbatim>\<open>dict\<close>, otherwise indexing with a missing key stores
  and returns the factory's value (the empty list for \<^verbatim>\<open>list\<close>).  The
  factory is kept as a field so that both kinds of dictionary are covered.
\<close>

record bmrt_cache =
  by_benchmark_name :: "string \<rightharpoonup> BMRTBenchmarkResult list"
  default_factory :: "BMRTBenchmarkResult list option"
  meta :: string

text \<open>\<^verbatim>\<open>bname in bmrt_cache["by_benchmark_name"]\<close>: a pure membership test.\<close>

definition cache_contains :: "bmrt_cache \<Rightarrow> string \<Rightarrow> bool" where
  "cache_contains cache bname = (by_benchmark_name cache bname \<noteq> None)"

text \<open>\<^verbatim>\<open>bmrt_cache["by_benchmark_name"][bname]\<close>: indexing, with the
  \<^verbatim>\<open>__missing__\<close> behaviour of \<^verbatim>\<open>defaultdict\<close>.\<close>

definition cache_getitem ::
  "bmrt_cache \<Rightarrow> string \<Rightarrow> (error + BMRTBenchmarkResult list) \<times> bmrt_cache" where
  "cache_getitem cache bname =
     (case by_benchmark_name cache bname of
        Some results \<Rightarrow> (Inr results, cache)
      | None \<Rightarrow>
          (case default_factory cache of
             None \<Rightarrow> (Inl (KeyError bname), cache)
           | Some v \<Rightarrow> (Inr v, cache\<lparr>by_benchmark_name := (by_benchmark_name cache)(bname \<mapsto> v)\<rparr>)))"

section \<open>Local dictionaries of lists\<close>

text \<open>
  The view functions build local \<^verbatim>\<open>defaultdict(list)\<close> objects with
  \<^verbatim>\<open>d[k].append(v)\<close>.  Python dictionaries keep insertion order, and that
  order is observable below (the sort is stable), so these are association
  lists with unique keys: a known key has the value appended to its list in
  place, a new key is added at the end.
\<close>

fun dict_append :: "'k \<Rightarrow> 'v \<Rightarrow> ('k \<times> 'v list) list \<Rightarrow> ('k \<times> 'v list) list" where
  "dict_append k v [] = [(k, [v])]"
| "dict_append k v ((k', vs) # d) =
     (if k' = k then (k', vs @ [v]) # d else (k', vs) # dict_append k v d)"

definition group_by_key :: "('v \<Rightarrow> 'k) \<Rightarrow> 'v list \<Rightarrow> ('k \<times> 'v list) list" where
  "group_by_key key vs = foldl (\<lambda>d v. dict_append (key v) v d) [] vs"

section \<open>Listing the cases of a benchmark\<close>

record cases_page =
  cases_benchmark_name :: string
  cases_bmr_cache_meta :: string
  results_by_case_id :: "(string \<times> BMRTBenchmarkResult list) list"
  hardware_count_per_case_id :: "(string \<times> nat) list"
  last_result_per_case_id :: "(string \<times> BMRTBenchmarkResult) list"
  context_count_per_case_id :: "(string \<times> nat) list"
  benchmark_result_count :: nat

text \<open>The second loop over \<^verbatim>\<open>results_by_case_id.items()\<close>, as far as it
  fills \<^verbatim>\<open>last_result_per_case_id\<close>.\<close>

fun last_results ::
  "(string \<times> BMRTBenchmarkResult list) list \<Rightarrow> error + (string \<times> BMRTBenchmarkResult) list" where
  "last_results [] = Inr []"
| "last_results ((cid, results) # rest) =
     (case newest_of_many_results results of
        Inl e \<Rightarrow> Inl e
      | Inr newest \<Rightarrow>
          (case last_results rest of
             Inl e \<Rightarrow> Inl e
           | Inr ls \<Rightarrow> Inr ((cid, newest) # ls)))"

section \<open>The results of one case\<close>

text \<open>The dictionary \<^verbatim>\<open>TypeUIPlotInfo\<close>; its key \<^verbatim>\<open>"unit"\<close> is the
  field \<open>info_unit\<close>.  \<^verbatim>\<open>data_for_uplot\<close> is a list of lists.\<close>

record TypeUIPlotInfo =
  title :: string
  url_to_newest_result :: string
  data_for_uplot :: "real list list"
  info_unit :: string

record results_page =
  matching_benchmark_result_count :: nat
  benchmark_results_for_table :: "BMRTBenchmarkResult list"
  y_unit_for_all_plots :: string
  benchmark_name :: string
  bmr_cache_meta :: string
  infos_for_uplots :: "string \<rightharpoonup> TypeUIPlotInfo"
  this_case_id :: string
  this_case_text_id :: string

text \<open>What a view function returns: a plain string, or one of the two
  templates with its keyword arguments.  The arguments taken from
  \<^verbatim>\<open>Config\<close> and the JSON copy of \<^verbatim>\<open>infos_for_uplots\<close> are left out.\<close>

datatype response = Text string | CasesPage cases_page | ResultsPage results_page

text \<open>The one record that the view writes to the log.\<close>

datatype log_record = Warning_saw_more_than_one_unit string string "string set"

definition UNIT_REPLACE_MAP :: "string \<rightharpoonup> string" where
  "UNIT_REPLACE_MAP = [''s'' \<mapsto> ''seconds'', ''i/s'' \<mapsto> ''iterations / second'']"

definition maybe_longer_unit :: "string \<Rightarrow> string" where
  "maybe_longer_unit u = (case UNIT_REPLACE_MAP u of Some longer \<Rightarrow> longer | None \<Rightarrow> u)"

text \<open>\<^verbatim>\<open>"%s" % n\<close> for a length \<open>n\<close>: the decimal digits.\<close>

function str_of_nat :: "nat \<Rightarrow> string" where
  "str_of_nat n =
     (if n < 10 then [''0123456789'' ! n]
      else str_of_nat (n div 10) @ [''0123456789'' ! (n mod 10)])"
  by pat_completeness auto
termination
  by (relation "measure (\<lambda>n. n)") auto

text \<open>
  \<^verbatim>\<open>set.pop()\<close> removes and returns an arbitrary element and raises
  \<^verbatim>\<open>KeyError\<close> on the empty set.  Which element it returns depends on the
  hash table of the interpreter, so the choice is a parameter \<open>pick\<close>; it
  stands for \<^verbatim>\<open>set.pop\<close> only where \<open>pick S \<in> S\<close>.
\<close>

definition set_pop :: "(string set \<Rightarrow> string) \<Rightarrow> string set \<Rightarrow> error + (string \<times> string set)" where
  "set_pop pick S =
     (if S = {} then Inl (KeyError ''pop from an empty set'')
      else Inr (pick S, S - {pick S}))"

type_synonym hw_ctx_key = "string \<times> string \<times> string"

text \<open>The key \<^verbatim>\<open>(hwid, ctxid, hwname)\<close> under which a result is grouped.\<close>

definition hw_ctx_key_of :: "BMRTBenchmarkResult \<Rightarrow> hw_ctx_key" where
  "hw_ctx_key_of result = (hardware_id result, context_id result, hardware_name result)"

text \<open>\<^verbatim>\<open>dict(sorted(items, key=lambda item: len(item[1]), reverse=True))\<close>:
  Python's sort is stable also with \<^verbatim>\<open>reverse=True\<close>, as is \<open>sort_key\<close> on
  the negated length.\<close>

definition sort_by_result_count ::
  "(hw_ctx_key \<times> BMRTBenchmarkResult list) list \<Rightarrow> (hw_ctx_key \<times> BMRTBenchmarkResult list) list" where
  "sort_by_result_count items = sort_key (\<lambda>item. - int (length (snd item))) items"

text \<open>The loop that fills \<^verbatim>\<open>results_for_table\<close>; \<open>acc\<close> is the list so far.\<close>

fun table_loop ::
  "BMRTBenchmarkResult list \<Rightarrow> (hw_ctx_key \<times> BMRTBenchmarkResult list) list \<Rightarrow> BMRTBenchmarkResult list" where
  "table_loop acc [] = acc"
| "table_loop acc ((k, results) # rest) =
     (let acc' = acc @ take 3000 results
      in if length acc' \<ge> 3000 then acc' else table_loop acc' rest)"

text \<open>The dictionary entry built for one plotted group.\<close>

definition plot_info ::
  "(string \<Rightarrow> string \<Rightarrow> string) \<Rightarrow> string \<Rightarrow> BMRTBenchmarkResult list \<Rightarrow> BMRTBenchmarkResult
     \<Rightarrow> TypeUIPlotInfo" where
  "plot_info url_for ctxid results newest_result =
     \<lparr>title = ''hardware: '' @ ui_hardware_short (results ! 0) @ '', context: '' @ take 7 ctxid
          @ '', '' @ str_of_nat (length results) @ '' results'',
      url_to_newest_result = url_for ''app.benchmark-result'' (bmr_id newest_result),
      data_for_uplot =
        [map started_at results,
         map (\<lambda>r. the (mean r)) (filter (\<lambda>r. mean r \<noteq> None) results)],
      info_unit = unit newest_result\<rparr>"

text \<open>The loop that fills \<^verbatim>\<open>infos_for_uplots\<close> and \<^verbatim>\<open>units_seen\<close>.
  \<^verbatim>\<open>results[0]\<close> in \<open>plot_info\<close> is read only for lists of three or more.\<close>

fun plot_loop ::
  "(string \<Rightarrow> string \<Rightarrow> string) \<Rightarrow> (hw_ctx_key \<times> BMRTBenchmarkResult list) list
     \<Rightarrow> (string \<rightharpoonup> TypeUIPlotInfo) \<times> string set
     \<Rightarrow> error + ((string \<rightharpoonup> TypeUIPlotInfo) \<times> string set)" where
  "plot_loop url_for [] st = Inr st"
| "plot_loop url_for (((hwid, ctxid, hwname), results) # rest) (infos, units_seen) =
     (if length results < 3 then plot_loop url_for rest (infos, units_seen)
      else
        (case newest_of_many_results results of
           Inl e \<Rightarrow> Inl e
         | Inr newest_result \<Rightarrow>
             plot_loop url_for rest
               (infos(hwid @ ''_'' @ ctxid \<mapsto> plot_info url_for ctxid results newest_result),
                units_seen \<union> unit ` set results)))"

text \<open>
  \<^verbatim>\<open>show_benchmark_cases(bname)\<close>.  The result is the response and the cache
  after the call.  The timing message written with \<^verbatim>\<open>log.info\<close> is not
  modelled.
\<close>

definition show_benchmark_cases :: "bmrt_cache \<Rightarrow> string \<Rightarrow> (error + response) \<times> bmrt_cache" where
  "show_benchmark_cases cache bname =
     (if \<not> cache_contains cache bname
      then (Inr (Text (''benchmark name not known: `'' @ bname @ ''`'')), cache)
      else
        (case cache_getitem cache bname of
           (Inl e, cache') \<Rightarrow> (Inl e, cache')
         | (Inr matching_results, cache') \<Rightarrow>
             (let by_case = group_by_key case_id matching_results
              in case last_results by_case of
                   Inl e \<Rightarrow> (Inl e, cache')
                 | Inr newest_per_case \<Rightarrow>
                     (Inr (CasesPage
                        \<lparr>cases_benchmark_name = bname,
                         cases_bmr_cache_meta = meta cache',
                         results_by_case_id = by_case,
                         hardware_count_per_case_id =
                           map (\<lambda>(cid, results). (cid, card (set (map hardware_id results)))) by_case,
                         last_result_per_case_id = newest_per_case,
                         context_count_per_case_id =
                           map (\<lambda>(cid, results). (cid, card (set (map context_id results)))) by_case,
                         benchmark_result_count = length matching_results\<rparr>),
                      cache'))))"

text \<open>
  \<^verbatim>\<open>show_benchmark_results(bname, caseid)\<close>.  \<open>pick\<close> is the choice made by
  \<^verbatim>\<open>set.pop\<close> and \<open>url_for\<close> is \<^verbatim>\<open>flask.url_for\<close> (endpoint and the one
  keyword value).  The result is the response or the exception that escapes,
  the cache after the call, and the log records written.
\<close>

definition show_benchmark_results ::
  "(string set \<Rightarrow> string) \<Rightarrow> (string \<Rightarrow> string \<Rightarrow> string) \<Rightarrow> bmrt_cache \<Rightarrow> string \<Rightarrow> string
     \<Rightarrow> (error + response) \<times> bmrt_cache \<times> log_record list" where
  "show_benchmark_results pick url_for cache bname caseid =
     (case cache_getitem cache bname of
        (Inl (KeyError k), cache') \<Rightarrow>
          (Inr (Text (''benchmark name not known: `'' @ bname @ ''`'')), cache', [])
      | (Inl (ValueError m), cache') \<Rightarrow> (Inl (ValueError m), cache', [])
      | (Inr results_all_with_bname, cache') \<Rightarrow>
          (let matching_results = filter (\<lambda>r. case_id r = caseid) results_all_with_bname
           in if matching_results = []
              then (Inr (Text (''no results found for benchmark `'' @ bname @ ''` and case `''
                                 @ caseid @ ''`'')), cache', [])
              else
                (let results_by_hardware_and_context = group_by_key hw_ctx_key_of matching_results;
                     results_by_hardware_and_context_sorted =
                       sort_by_result_count results_by_hardware_and_context;
                     results_for_table = table_loop [] results_by_hardware_and_context_sorted
                 in case plot_loop url_for results_by_hardware_and_context_sorted (Map.empty, {}) of
                      Inl e \<Rightarrow> (Inl e, cache', [])
                    | Inr (infos, units_seen) \<Rightarrow>
                        (let logged =
                               (if card units_seen \<noteq> 1
                                then [Warning_saw_more_than_one_unit bname caseid units_seen]
                                else [])
                         in case set_pop pick units_seen of
                              Inl e \<Rightarrow> (Inl e, cache', logged)
                            | Inr (u, units_left) \<Rightarrow>
                                (Inr (ResultsPage
                                   \<lparr>matching_benchmark_result_count = length matching_results,
                                    benchmark_results_for_table = results_for_table,
                                    y_unit_for_all_plots = maybe_longer_unit u,
                                    benchmark_name = bname,
                                    bmr_cache_meta = meta cache',
                                    infos_for_uplots = infos,
                                    this_case_id = case_id (matching_results ! 0),
                                    this_case_text_id = case_text_id (matching_results ! 0)\<rparr>),
                                 cache', logged)))))"

text \<open>
  The groups that \<^verbatim>\<open>show_benchmark_results\<close> walks, as a function of the
  results stored under the benchmark name: the results of the case, grouped
  by hardware and context, the groups sorted by their size.
\<close>

definition ranked_groups ::
  "BMRTBenchmarkResult list \<Rightarrow> string \<Rightarrow> (hw_ctx_key \<times> BMRTBenchmarkResult list) list" where
  "ranked_groups bucket caseid =
     sort_by_result_count
       (group_by_key hw_ctx_key_of (filter (\<lambda>r. case_id r = caseid) bucket))"

text \<open>The units seen by the view: those of the results of every group that is
  plotted, that is, of every group with at least three results.\<close>

definition plotted_units :: "BMRTBenchmarkResult list \<Rightarrow> string \<Rightarrow> string set" where
  "plotted_units bucket caseid =
     \<Union> ((\<lambda>g. unit ` set (snd g)) ` {g \<in> set (ranked_groups bucket caseid). 3 \<le> length (snd g)})"

section \<open>The compare view\<close>

text \<open>
  A comparison is one of the dictionaries returned by \<^verbatim>\<open>get_comparisons\<close>.
  Its entries \<^verbatim>\<open>"baseline"\<close> and \<^verbatim>\<open>"contender"\<close> are \<^verbatim>\<open>None\<close> or a
  dictionary (an association list of strings here), and
  \<^verbatim>\<open>"compare_benchmarks_url"\<close> is what \<^verbatim>\<open>_compare\<close> stores.
\<close>

record comparison =
  baseline :: "(string \<times> string) list option"
  contender :: "(string \<times> string) list option"
  compare_benchmarks_url :: "string option"

text \<open>Python truth of an optional dictionary and of an optional string.\<close>

definition truthy_dict :: "(string \<times> string) list option \<Rightarrow> bool" where
  "truthy_dict d = (case d of None \<Rightarrow> False | Some kvs \<Rightarrow> kvs \<noteq> [])"

definition truthy_str :: "string option \<Rightarrow> bool" where
  "truthy_str s = (case s of None \<Rightarrow> False | Some cs \<Rightarrow> cs \<noteq> [])"

text \<open>\<^verbatim>\<open>c[side]["benchmark_result_id"]\<close>, read only for a side that is true.\<close>

definition benchmark_result_id_of :: "(string \<times> string) list option \<Rightarrow> error + string" where
  "benchmark_result_id_of d =
     (case map_of (the d) ''benchmark_result_id'' of
        None \<Rightarrow> Inl (KeyError ''benchmark_result_id'')
      | Some v \<Rightarrow> Inr v)"

text \<open>The body of the loop in \<^verbatim>\<open>_compare\<close>, for one comparison.\<close>

definition set_compare_url :: "(string \<Rightarrow> string \<Rightarrow> string) \<Rightarrow> comparison \<Rightarrow> error + comparison" where
  "set_compare_url url_for c =
     (if truthy_dict (baseline c) \<and> truthy_dict (contender c) then
        (case benchmark_result_id_of (baseline c) of
           Inl e \<Rightarrow> Inl e
         | Inr b \<Rightarrow>
             (case benchmark_result_id_of (contender c) of
                Inl e \<Rightarrow> Inl e
              | Inr k \<Rightarrow>
                  Inr (c\<lparr>compare_benchmarks_url :=
                          Some (url_for ''app.compare-benchmark-results'' (b @ ''...'' @ k))\<rparr>)))
      else Inr (c\<lparr>compare_benchmarks_url := None\<rparr>))"

fun set_compare_urls :: "(string \<Rightarrow> string \<Rightarrow> string) \<Rightarrow> comparison list \<Rightarrow> error + comparison list" where
  "set_compare_urls url_for [] = Inr []"
| "set_compare_urls url_for (c # cs) =
     (case set_compare_url url_for c of
        Inl e \<Rightarrow> Inl e
      | Inr c' \<Rightarrow>
          (case set_compare_urls url_for cs of
             Inl e \<Rightarrow> Inl e
           | Inr cs' \<Rightarrow> Inr (c' # cs')))"

text \<open>
  \<^verbatim>\<open>Compare._compare\<close>.  The abstract method \<^verbatim>\<open>get_comparisons\<close> is a
  parameter; it reads the API or the database, whose state \<open>'s\<close> it may
  change.
\<close>

definition Compare_compare ::
  "(string \<Rightarrow> string \<Rightarrow> string)
     \<Rightarrow> (string \<Rightarrow> string \<Rightarrow> 's \<Rightarrow> (comparison list \<times> string option) \<times> 's)
     \<Rightarrow> string \<Rightarrow> string \<Rightarrow> 's \<Rightarrow> (error + comparison list \<times> string option) \<times> 's" where
  "Compare_compare url_for get_comparisons baseline_id contender_id st =
     (case get_comparisons baseline_id contender_id st of
        ((comparisons, errmsg), st') \<Rightarrow>
          if truthy_str errmsg then (Inr ([], errmsg), st')
          else
            (case set_compare_urls url_for comparisons of
               Inl e \<Rightarrow> (Inl e, st')
             | Inr cs \<Rightarrow> (Inr (cs, None), st')))"

text \<open>\<^verbatim>\<open>str.find\<close>: the lowest index at which \<open>sep\<close> occurs in the string.\<close>

fun str_find :: "string \<Rightarrow> string \<Rightarrow> nat option" where
  "str_find sep [] = (if sep = [] then Some 0 else None)"
| "str_find sep (c # cs) =
     (if take (length sep) (c # cs) = sep then Some 0
      else map_option Suc (str_find sep cs))"

text \<open>\<^verbatim>\<open>sep in s\<close> and \<^verbatim>\<open>s.split(sep, 1)\<close> for a non-empty \<open>sep\<close>.\<close>

definition str_contains :: "string \<Rightarrow> string \<Rightarrow> bool" where
  "str_contains sep s = (str_find sep s \<noteq> None)"

definition str_split1 :: "string \<Rightarrow> string \<Rightarrow> string list" where
  "str_split1 sep s =
     (case str_find sep s of
        None \<Rightarrow> [s]
      | Some i \<Rightarrow> [take i s, drop (i + length sep) s])"

text \<open>
  What \<^verbatim>\<open>Compare.get\<close> returns: \<^verbatim>\<open>error_page(message, alert_level=...,
  subtitle=...)\<close>, where the alert level is \<open>None\<close> when the call leaves it
  to the default, or the page rendered by \<^verbatim>\<open>self.page\<close>.
\<close>

datatype 'p compare_response = ErrorPage string "string option" string | ComparePage 'p

text \<open>
  The part of \<^verbatim>\<open>Compare.get\<close> after the checks of the two tokens: the
  call of \<^verbatim>\<open>_compare\<close> and what follows.  \<^verbatim>\<open>self.page\<close> renders through
  mixins and templates and reads the store; it is a parameter.
\<close>

definition compare_and_render ::
  "(string \<Rightarrow> string \<Rightarrow> string)
     \<Rightarrow> (string \<Rightarrow> string \<Rightarrow> 's \<Rightarrow> (comparison list \<times> string option) \<times> 's)
     \<Rightarrow> (comparison list \<Rightarrow> string \<Rightarrow> string \<Rightarrow> 's \<Rightarrow> 'p \<times> 's)
     \<Rightarrow> string \<Rightarrow> string \<Rightarrow> string \<Rightarrow> 's \<Rightarrow> (error + 'p compare_response) \<times> 's" where
  "compare_and_render url_for get_comparisons page subtitle baseline_id contender_id st =
     (case Compare_compare url_for get_comparisons baseline_id contender_id st of
        (Inl e, st') \<Rightarrow> (Inl e, st')
      | (Inr (comparison_results, error_string), st') \<Rightarrow>
          (case error_string of
             Some msg \<Rightarrow>
               (Inr (ErrorPage (''cannot perform comparison: '' @ msg) (Some ''info'') subtitle), st')
           | None \<Rightarrow>
               if length comparison_results = 0
               then (Inr (ErrorPage ''comparison yielded 0 benchmark results'' (Some ''info'') subtitle),
                     st')
               else
                 (case page comparison_results baseline_id contender_id st' of
                    (p, st'') \<Rightarrow> (Inr (ComparePage p), st''))))"

text \<open>\<^verbatim>\<open>Compare.get\<close>; \<open>subtitle\<close> is \<^verbatim>\<open>self.title\<close>.\<close>

definition Compare_get ::
  "(string \<Rightarrow> string \<Rightarrow> string)
     \<Rightarrow> (string \<Rightarrow> string \<Rightarrow> 's \<Rightarrow> (comparison list \<times> string option) \<times> 's)
     \<Rightarrow> (comparison list \<Rightarrow> string \<Rightarrow> string \<Rightarrow> 's \<Rightarrow> 'p \<times> 's)
     \<Rightarrow> string \<Rightarrow> string \<Rightarrow> 's \<Rightarrow> (error + 'p compare_response) \<times> 's" where
  "Compare_get url_for get_comparisons page subtitle compare_ids st =
     (if \<not> str_contains ''...'' compare_ids
      then (Inr (ErrorPage ''Got unexpected URL path pattern. Expected: <id>...<id>'' None subtitle), st)
      else
        (case str_split1 ''...'' compare_ids of
           [baseline_id, contender_id] \<Rightarrow>
             if baseline_id = []
             then (Inr (ErrorPage
                     ''No baseline ID was provided. Expected format: <baseline_id>...<contender_id>''
                     None subtitle), st)
             else if contender_id = []
             then (Inr (ErrorPage
                     ''No contender ID was provided. Expected format: <baseline-id>...<contender-id>''
                     None subtitle), st)
             else compare_and_render url_for get_comparisons page subtitle baseline_id contender_id st
         | _ \<Rightarrow> (Inl (ValueError ''not enough values to unpack (expected 2, got 1)''), st)))"

section \<open>Example data\<close>

text \<open>A result with the given id, case, hardware, context, time, mean and unit.\<close>

definition bmr ::
  "string \<Rightarrow> string \<Rightarrow> string \<Rightarrow> string \<Rightarrow> real \<Rightarrow> real option \<Rightarrow> string \<Rightarrow> BMRTBenchmarkResult" where
  "bmr i cid hw ctx t m u =
     \<lparr>bmr_id = i, case_id = cid, case_text_id = cid, hardware_id = hw, hardware_name = hw,
      context_id = ctx, started_at = t, mean = m, unit = u, ui_hardware_short = hw\<rparr>"

text \<open>A cache whose \<^verbatim>\<open>defaultdict(list)\<close> holds one benchmark name.\<close>

definition cache_of :: "string \<Rightarrow> BMRTBenchmarkResult list \<Rightarrow> bmrt_cache" where
  "cache_of bname results =
     \<lparr>by_benchmark_name = [bname \<mapsto> results], default_factory = Some [], meta = ''meta''\<rparr>"

text \<open>A \<^verbatim>\<open>url_for\<close> that joins the endpoint and the value into a path.\<close>

definition url_for_path :: "string \<Rightarrow> string \<Rightarrow> string" where
  "url_for_path endpoint v = ''/'' @ endpoint @ ''/'' @ v"

text \<open>Two behaviours of \<^verbatim>\<open>set.pop\<close>: the least and the greatest string.\<close>

definition pop_least :: "string set \<Rightarrow> string" where
  "pop_least S = Min S"

definition pop_greatest :: "string set \<Rightarrow> string" where
  "pop_greatest S = Max S"

text \<open>What is read off a response: the number of rows of the table, the
  plot data stored under a key, and the unit of the ordinate.\<close>

definition table_row_count :: "error + response \<Rightarrow> nat option" where
  "table_row_count r =
     (case r of
        Inr (ResultsPage p) \<Rightarrow> Some (length (benchmark_results_for_table p))
      | _ \<Rightarrow> None)"

definition plot_data :: "error + response \<Rightarrow> string \<Rightarrow> real list list option" where
  "plot_data r key =
     (case r of
        Inr (ResultsPage p) \<Rightarrow> map_option data_for_uplot (infos_for_uplots p key)
      | _ \<Rightarrow> None)"

definition y_unit :: "error + response \<Rightarrow> string option" where
  "y_unit r =
     (case r of
        Inr (ResultsPage p) \<Rightarrow> Some (y_unit_for_all_plots p)
      | _ \<Rightarrow> None)"

text \<open>A \<^verbatim>\<open>get_comparisons\<close> that answers with a fixed list and message and
  counts its calls in the state, and a \<^verbatim>\<open>page\<close> that returns its arguments.\<close>

definition get_comparisons_fixed ::
  "comparison list \<Rightarrow> string option \<Rightarrow> string \<Rightarrow> string \<Rightarrow> nat
     \<Rightarrow> (comparison list \<times> string option) \<times> nat" where
  "get_comparisons_fixed cs err baseline_id contender_id st = ((cs, err), Suc st)"

definition page_args ::
  "comparison list \<Rightarrow> string \<Rightarrow> string \<Rightarrow> nat \<Rightarrow> (comparison list \<times> string \<times> string) \<times> nat" where
  "page_args comparisons baseline_id contender_id st = ((comparisons, baseline_id, contender_id), st)"

section \<open>Properties of the newest result\<close>

text \<open>The value of \<open>max_key\<close> splits the sequence: everything before it has
  a strictly smaller key, nothing after it has a greater one.\<close>

lemma max_key_split:
  "\<exists>ys zs. b # xs = ys @ max_key key b xs # zs
     \<and> (\<forall>y\<in>set ys. key y < key (max_key key b xs))
     \<and> (\<forall>z\<in>set zs. key z \<le> key (max_key key b xs))"
proof (induction xs arbitrary: b)
  case Nil
  show ?case by (intro exI[of _ "[]"]) simp
next
  case (Cons x xs)
  show ?case
  proof (cases "key b < key x")
    case True
    define m where "m = max_key key x xs"
    have step: "max_key key b (x # xs) = m" using True by (simp add: m_def)
    from Cons.IH[of x] obtain ys zs where
      dec: "x # xs = ys @ m # zs" and lo: "\<forall>y\<in>set ys. key y < key m"
      and hi: "\<forall>z\<in>set zs. key z \<le> key m"
      unfolding m_def by blast
    have "x \<in> set (ys @ m # zs)" using dec by (metis list.set_intros(1))
    then have "key x \<le> key m" using lo hi by auto
    then have "\<forall>y\<in>set (b # ys). key y < key m" using lo True by auto
    moreover have "b # x # xs = (b # ys) @ m # zs" using dec by simp
    ultimately show ?thesis unfolding step using hi by blast
  next
    case False
    define m where "m = max_key key b xs"
    have step: "max_key key b (x # xs) = m" using False by (simp add: m_def)
    from Cons.IH[of b] obtain ys zs where
      dec: "b # xs = ys @ m # zs" and lo: "\<forall>y\<in>set ys. key y < key m"
      and hi: "\<forall>z\<in>set zs. key z \<le> key m"
      unfolding m_def by blast
    show ?thesis
    proof (cases ys)
      case Nil
      then have bm: "b = m" and xz: "xs = zs" using dec by simp_all
      have "b # x # xs = [] @ m # (x # zs)" using bm xz by simp
      moreover have "\<forall>z\<in>set (x # zs). key z \<le> key m" using hi False bm by auto
      moreover have "\<forall>y\<in>set ([]::'a list). key y < key m" by simp
      ultimately show ?thesis unfolding step by blast
    next
      case (Cons y ys')
      then have by': "b = y" and xs: "xs = ys' @ m # zs" using dec by simp_all
      have "key b < key m" using lo Cons by' by simp
      then have "\<forall>y\<in>set (b # x # ys'). key y < key m" using lo Cons False by auto
      moreover have "b # x # xs = (b # x # ys') @ m # zs" using xs by simp
      ultimately show ?thesis unfolding step using hi by blast
    qed
  qed
qed

text \<open>
  C4, as the code has it.  For a non-empty list the selection returns a
  result of maximal \<open>started_at\<close>, and among the results that share the
  maximum it returns the one that comes first in the list: every earlier
  result is strictly older.  The \<open>id\<close> plays no part.
\<close>

theorem newest_of_many_results_first_maximal:
  assumes "results \<noteq> []"
  shows "\<exists>ys r zs. results = ys @ r # zs \<and> newest_of_many_results results = Inr r
           \<and> (\<forall>y\<in>set ys. started_at y < started_at r)
           \<and> (\<forall>z\<in>set zs. started_at z \<le> started_at r)"
proof -
  from assms obtain b xs where r: "results = b # xs" by (cases results) auto
  from max_key_split[of b xs started_at] show ?thesis
    unfolding r newest_of_many_results_def by auto
qed

theorem newest_of_many_results_first_maximal_witness:
  "[bmr ''a'' ''c'' ''h'' ''x'' 5 None ''s'', bmr ''b'' ''c'' ''h'' ''x'' 7 None ''s''] \<noteq> []
   \<and> (\<exists>ys r zs.
         [bmr ''a'' ''c'' ''h'' ''x'' 5 None ''s'', bmr ''b'' ''c'' ''h'' ''x'' 7 None ''s'']
           = ys @ r # zs
         \<and> newest_of_many_results
             [bmr ''a'' ''c'' ''h'' ''x'' 5 None ''s'', bmr ''b'' ''c'' ''h'' ''x'' 7 None ''s'']
           = Inr r
         \<and> (\<forall>y\<in>set ys. started_at y < started_at r)
         \<and> (\<forall>z\<in>set zs. started_at z \<le> started_at r))"
  using newest_of_many_results_first_maximal
    [of "[bmr ''a'' ''c'' ''h'' ''x'' 5 None ''s'', bmr ''b'' ''c'' ''h'' ''x'' 7 None ''s'']"]
  by simp

text \<open>
  C4, as the claim states it, fails: two results with the same
  \<open>started_at\<close> and the ids \<open>a\<close> and \<open>b\<close>.  Whichever of the two is
  listed first is selected, so the same pair of results gives the id \<open>a\<close>
  in one order and the id \<open>b\<close> in the other.
\<close>

theorem newest_of_many_results_tie_counterexample:
  "started_at (bmr ''a'' ''c'' ''h'' ''x'' 5 None ''s'')
     = started_at (bmr ''b'' ''c'' ''h'' ''x'' 5 None ''s'')
   \<and> newest_of_many_results
        [bmr ''a'' ''c'' ''h'' ''x'' 5 None ''s'', bmr ''b'' ''c'' ''h'' ''x'' 5 None ''s'']
       = Inr (bmr ''a'' ''c'' ''h'' ''x'' 5 None ''s'')
   \<and> newest_of_many_results
        [bmr ''b'' ''c'' ''h'' ''x'' 5 None ''s'', bmr ''a'' ''c'' ''h'' ''x'' 5 None ''s'']
       = Inr (bmr ''b'' ''c'' ''h'' ''x'' 5 None ''s'')"
  by (simp add: newest_of_many_results_def bmr_def)

section \<open>Properties of the grouping\<close>

lemma dict_append_keys:
  "fst ` set (dict_append k v d) = insert k (fst ` set d)"
proof (induction d)
  case Nil
  show ?case by simp
next
  case (Cons a d)
  obtain k' vs where a: "a = (k', vs)" by (cases a)
  show ?case
  proof (cases "k' = k")
    case True
    then show ?thesis by (simp add: a)
  next
    case False
    then show ?thesis by (simp add: a Cons.IH insert_commute)
  qed
qed

lemma dict_append_distinct:
  "distinct (map fst d) \<Longrightarrow> distinct (map fst (dict_append k v d))"
proof (induction d)
  case Nil
  show ?case by simp
next
  case (Cons a d)
  obtain k' vs where a: "a = (k', vs)" by (cases a)
  from Cons have d: "distinct (map fst d)" and nin: "k' \<notin> fst ` set d" by (auto simp: a)
  show ?case
  proof (cases "k' = k")
    case True
    then show ?thesis using d nin by (simp add: a)
  next
    case False
    have "k' \<notin> fst ` set (dict_append k v d)"
      using nin False by (simp add: dict_append_keys)
    then show ?thesis using Cons.IH[OF d] False by (simp add: a)
  qed
qed

lemma dict_append_map_of:
  "map_of (dict_append k v d) k' =
     (if k' = k then Some ((case map_of d k of None \<Rightarrow> [] | Some vs \<Rightarrow> vs) @ [v])
      else map_of d k')"
  by (induction d) auto

lemma group_by_key_snoc:
  "group_by_key key (xs @ [x]) = dict_append (key x) x (group_by_key key xs)"
  by (simp add: group_by_key_def)

lemma group_by_key_distinct: "distinct (map fst (group_by_key key xs))"
proof (induction xs rule: rev_induct)
  case Nil
  show ?case by (simp add: group_by_key_def)
next
  case (snoc x xs)
  then show ?case by (simp add: group_by_key_snoc dict_append_distinct)
qed

lemma group_by_key_map_of:
  "map_of (group_by_key key xs) k =
     (if filter (\<lambda>v. key v = k) xs = [] then None else Some (filter (\<lambda>v. key v = k) xs))"
proof (induction xs rule: rev_induct)
  case Nil
  show ?case by (simp add: group_by_key_def)
next
  case (snoc x xs)
  then show ?case by (auto simp: group_by_key_snoc dict_append_map_of)
qed

lemma group_by_key_member:
  "(k, vs) \<in> set (group_by_key key xs) \<longleftrightarrow> vs = filter (\<lambda>v. key v = k) xs \<and> vs \<noteq> []"
proof -
  have "(k, vs) \<in> set (group_by_key key xs) \<longleftrightarrow> map_of (group_by_key key xs) k = Some vs"
    using group_by_key_distinct[of key xs] by (metis map_of_eq_Some_iff)
  then show ?thesis by (auto simp: group_by_key_map_of)
qed

lemma ranked_groups_member:
  "(k, rs) \<in> set (ranked_groups bucket caseid) \<longleftrightarrow>
     rs = filter (\<lambda>r. case_id r = caseid \<and> hw_ctx_key_of r = k) bucket \<and> rs \<noteq> []"
proof -
  have "filter (\<lambda>v. hw_ctx_key_of v = k) (filter (\<lambda>r. case_id r = caseid) bucket)
          = filter (\<lambda>r. case_id r = caseid \<and> hw_ctx_key_of r = k) bucket"
    by (simp add: conj_commute)
  then show ?thesis
    by (simp add: ranked_groups_def sort_by_result_count_def group_by_key_member)
qed

section \<open>Properties of the plot loop\<close>

lemma newest_of_many_results_total:
  "results \<noteq> [] \<Longrightarrow> \<exists>r. newest_of_many_results results = Inr r"
  by (cases results) (simp_all add: newest_of_many_results_def)

lemma plot_loop_total:
  "\<exists>infos units. plot_loop url_for gs st = Inr (infos, units)"
proof (induction gs arbitrary: st)
  case Nil
  show ?case by (cases st) simp
next
  case (Cons g gs)
  obtain hwid ctxid hwname results where g: "g = ((hwid, ctxid, hwname), results)"
    by (metis prod_cases3 surj_pair)
  obtain infos units where st: "st = (infos, units)" by (cases st)
  show ?case
  proof (cases "length results < 3")
    case True
    then show ?thesis using Cons.IH by (simp add: g st)
  next
    case False
    then have "results \<noteq> []" by auto
    then obtain r where "newest_of_many_results results = Inr r"
      using newest_of_many_results_total by blast
    then show ?thesis using Cons.IH False by (simp add: g st)
  qed
qed

lemma plot_loop_units:
  "plot_loop url_for gs (infos0, units0) = Inr (infos, units) \<Longrightarrow>
     units = units0 \<union> \<Union> ((\<lambda>g. unit ` set (snd g)) ` {g \<in> set gs. 3 \<le> length (snd g)})"
proof (induction gs arbitrary: infos0 units0)
  case Nil
  then show ?case by simp
next
  case (Cons g gs)
  obtain hwid ctxid hwname results where g: "g = ((hwid, ctxid, hwname), results)"
    by (metis prod_cases3 surj_pair)
  show ?case
  proof (cases "length results < 3")
    case True
    then have "plot_loop url_for gs (infos0, units0) = Inr (infos, units)"
      using Cons.prems by (simp add: g)
    from Cons.IH[OF this] show ?thesis using True by (auto simp: g)
  next
    case False
    then have "results \<noteq> []" by auto
    then obtain r where r: "newest_of_many_results results = Inr r"
      using newest_of_many_results_total by blast
    have "plot_loop url_for gs
            (infos0(hwid @ ''_'' @ ctxid \<mapsto> plot_info url_for ctxid results r),
             units0 \<union> unit ` set results) = Inr (infos, units)"
      using Cons.prems False r by (simp add: g)
    from Cons.IH[OF this] show ?thesis using False by (auto simp: g)
  qed
qed

lemma plot_loop_infos:
  "plot_loop url_for gs (infos0, units0) = Inr (infos, units) \<Longrightarrow> infos key = Some info \<Longrightarrow>
     infos0 key = Some info \<or>
     (\<exists>hwid ctxid hwname results newest.
         ((hwid, ctxid, hwname), results) \<in> set gs \<and> 3 \<le> length results
         \<and> key = hwid @ ''_'' @ ctxid
         \<and> newest_of_many_results results = Inr newest
         \<and> info = plot_info url_for ctxid results newest)"
proof (induction gs arbitrary: infos0 units0)
  case Nil
  then show ?case by simp
next
  case (Cons g gs)
  obtain hwid ctxid hwname results where g: "g = ((hwid, ctxid, hwname), results)"
    by (metis prod_cases3 surj_pair)
  show ?case
  proof (cases "length results < 3")
    case True
    then have "plot_loop url_for gs (infos0, units0) = Inr (infos, units)"
      using Cons.prems by (simp add: g)
    from Cons.IH[OF this Cons.prems(2)] show ?thesis
      by (metis list.set_intros(2))
  next
    case False
    then have "results \<noteq> []" by auto
    then obtain r where r: "newest_of_many_results results = Inr r"
      using newest_of_many_results_total by blast
    let ?i = "infos0(hwid @ ''_'' @ ctxid \<mapsto> plot_info url_for ctxid results r)"
    have "plot_loop url_for gs (?i, units0 \<union> unit ` set results) = Inr (infos, units)"
      using Cons.prems False r by (simp add: g)
    from Cons.IH[OF this Cons.prems(2)] consider
      (old) "?i key = Some info"
      | (new) "\<exists>hwid ctxid hwname results newest.
         ((hwid, ctxid, hwname), results) \<in> set gs \<and> 3 \<le> length results
         \<and> key = hwid @ ''_'' @ ctxid
         \<and> newest_of_many_results results = Inr newest
         \<and> info = plot_info url_for ctxid results newest" by blast
    then show ?thesis
    proof cases
      case old
      show ?thesis
      proof (cases "key = hwid @ ''_'' @ ctxid")
        case True
        then have "info = plot_info url_for ctxid results r" using old by simp
        then have "((hwid, ctxid, hwname), results) \<in> set (g # gs) \<and> 3 \<le> length results
           \<and> key = hwid @ ''_'' @ ctxid \<and> newest_of_many_results results = Inr r
           \<and> info = plot_info url_for ctxid results r"
          using True False r by (simp add: g)
        then show ?thesis by blast
      next
        case False
        then show ?thesis using old by simp
      qed
    next
      case new
      then show ?thesis by (metis list.set_intros(2))
    qed
  qed
qed

lemma plot_loop_units_member:
  assumes "plot_loop url_for gs (infos0, units0) = Inr (infos, units)"
    and "g \<in> set gs" and "3 \<le> length (snd g)" and "r \<in> set (snd g)"
  shows "unit r \<in> units"
proof -
  obtain k rs where g: "g = (k, rs)" by (cases g)
  have "unit r \<in> \<Union> ((\<lambda>g. unit ` set (snd g)) ` {g \<in> set gs. 3 \<le> length (snd g)})"
    using assms(2-4) by blast
  then show ?thesis using plot_loop_units[OF assms(1)] by blast
qed

lemma plot_loop_plotted_units:
  "plot_loop url_for (ranked_groups bucket caseid) (Map.empty, {}) = Inr (infos, units)
     \<Longrightarrow> units = plotted_units bucket caseid"
  using plot_loop_units[of url_for "ranked_groups bucket caseid" Map.empty "{}" infos units]
  by (simp add: plotted_units_def)

lemma plotted_units_finite: "finite (plotted_units bucket caseid)"
  by (simp add: plotted_units_def)

lemma plotted_units_member:
  assumes "(k, rs) \<in> set (ranked_groups bucket caseid)" and "3 \<le> length rs" and "r \<in> set rs"
  shows "unit r \<in> plotted_units bucket caseid"
proof -
  have "(k, rs) \<in> {g \<in> set (ranked_groups bucket caseid). 3 \<le> length (snd g)}"
    using assms by simp
  moreover have "unit r \<in> unit ` set (snd (k, rs))" using assms by simp
  ultimately show ?thesis unfolding plotted_units_def by blast
qed

section \<open>The results view, taken apart\<close>

text \<open>What a returned page was computed from, and what the view returns
  once the stored results and the outcome of the plot loop are known.\<close>

lemma show_benchmark_results_page:
  assumes "show_benchmark_results pick url_for cache bname caseid = (Inr (ResultsPage p), cache', logged)"
  shows "\<exists>bucket infos units.
           cache_getitem cache bname = (Inr bucket, cache')
         \<and> filter (\<lambda>r. case_id r = caseid) bucket \<noteq> []
         \<and> plot_loop url_for (ranked_groups bucket caseid) (Map.empty, {}) = Inr (infos, units)
         \<and> units \<noteq> {}
         \<and> benchmark_results_for_table p = table_loop [] (ranked_groups bucket caseid)
         \<and> infos_for_uplots p = infos
         \<and> y_unit_for_all_plots p = maybe_longer_unit (pick units)
         \<and> logged = (if card units \<noteq> 1 then [Warning_saw_more_than_one_unit bname caseid units] else [])"
  using assms
  by (auto simp: show_benchmark_results_def ranked_groups_def Let_def set_pop_def
      split: prod.splits sum.splits error.splits if_splits)

lemma show_benchmark_results_run:
  assumes "cache_getitem cache bname = (Inr bucket, cache')"
    and "filter (\<lambda>r. case_id r = caseid) bucket \<noteq> []"
    and "plot_loop url_for (ranked_groups bucket caseid) (Map.empty, {}) = Inr (infos, units)"
  shows "show_benchmark_results pick url_for cache bname caseid =
           (if units = {} then
              (Inl (KeyError ''pop from an empty set''), cache',
               [Warning_saw_more_than_one_unit bname caseid units])
            else
              (Inr (ResultsPage
                 \<lparr>matching_benchmark_result_count = length (filter (\<lambda>r. case_id r = caseid) bucket),
                  benchmark_results_for_table = table_loop [] (ranked_groups bucket caseid),
                  y_unit_for_all_plots = maybe_longer_unit (pick units),
                  benchmark_name = bname,
                  bmr_cache_meta = meta cache',
                  infos_for_uplots = infos,
                  this_case_id = case_id (filter (\<lambda>r. case_id r = caseid) bucket ! 0),
                  this_case_text_id = case_text_id (filter (\<lambda>r. case_id r = caseid) bucket ! 0)\<rparr>),
               cache',
               if card units \<noteq> 1 then [Warning_saw_more_than_one_unit bname caseid units] else []))"
  using assms
  by (simp add: show_benchmark_results_def ranked_groups_def Let_def set_pop_def)

lemma plotted_units_matching:
  assumes "plotted_units bucket caseid \<noteq> {}"
  shows "filter (\<lambda>r. case_id r = caseid) bucket \<noteq> []"
proof -
  from assms obtain k rs where "(k, rs) \<in> set (ranked_groups bucket caseid)"
    by (auto simp: plotted_units_def)
  then have "filter (\<lambda>r. case_id r = caseid \<and> hw_ctx_key_of r = k) bucket \<noteq> []"
    using ranked_groups_member[of k rs bucket caseid] by blast
  then show ?thesis by (auto simp: filter_empty_conv)
qed

lemma show_benchmark_results_units:
  assumes "cache_getitem cache bname = (Inr bucket, cache')"
    and "plotted_units bucket caseid \<noteq> {}"
  shows "\<exists>p. show_benchmark_results pick url_for cache bname caseid =
           (Inr (ResultsPage p), cache',
            if card (plotted_units bucket caseid) \<noteq> 1
            then [Warning_saw_more_than_one_unit bname caseid (plotted_units bucket caseid)] else [])
         \<and> y_unit_for_all_plots p = maybe_longer_unit (pick (plotted_units bucket caseid))"
proof -
  obtain infos units where
    plot: "plot_loop url_for (ranked_groups bucket caseid) (Map.empty, {}) = Inr (infos, units)"
    using plot_loop_total by blast
  have units: "units = plotted_units bucket caseid" by (rule plot_loop_plotted_units[OF plot])
  show ?thesis
    using show_benchmark_results_run[OF assms(1) plotted_units_matching[OF assms(2)] plot, of pick]
      assms(2)
    by (simp add: units)
qed

section \<open>The table of results\<close>

lemma table_loop_Cons:
  "table_loop acc ((k, results) # rest) =
     (if 3000 \<le> length (acc @ take 3000 results) then acc @ take 3000 results
      else table_loop (acc @ take 3000 results) rest)"
  by (simp only: table_loop.simps Let_def)

lemma table_loop_bound:
  assumes "length acc < 3000" and "\<forall>g\<in>set gs. length (snd g) \<le> length acc"
  shows "length (table_loop acc gs) \<le> 5998"
  using assms
proof (induction gs arbitrary: acc)
  case Nil
  then show ?case by simp
next
  case (Cons g gs)
  obtain k results where g: "g = (k, results)" by (cases g)
  let ?acc = "acc @ take 3000 results"
  have len: "length ?acc \<le> 2 * length acc" "length acc \<le> length ?acc"
    using Cons.prems by (auto simp: g)
  show ?case
  proof (cases "3000 \<le> length ?acc")
    case True
    have "table_loop acc (g # gs) = ?acc"
      unfolding g table_loop_Cons using True by (simp only: if_True)
    then have "length (table_loop acc (g # gs)) \<le> 2 * length acc"
      using len(1) by simp
    then show ?thesis using Cons.prems(1) by linarith
  next
    case False
    then have "length ?acc < 3000" by simp
    moreover have "\<forall>g\<in>set gs. length (snd g) \<le> length ?acc"
      using Cons.prems(2) len(2) by fastforce
    ultimately have "length (table_loop ?acc gs) \<le> 5998" by (rule Cons.IH)
    moreover have "table_loop acc (g # gs) = table_loop ?acc gs"
      unfolding g table_loop_Cons using False by (simp only: if_False)
    ultimately show ?thesis by simp
  qed
qed

lemma sort_by_result_count_head:
  assumes "sort_by_result_count items = g # gs"
  shows "\<forall>h\<in>set gs. length (snd h) \<le> length (snd g)"
proof -
  have "sorted (map (\<lambda>item. - int (length (snd item))) (sort_by_result_count items))"
    unfolding sort_by_result_count_def by (rule sorted_sort_key)
  then have "sorted (map (\<lambda>item. - int (length (snd item))) (g # gs))"
    by (simp only: assms)
  then show ?thesis by auto
qed

lemma table_loop_ranked_bound:
  "length (table_loop [] (sort_by_result_count items)) \<le> 5998"
proof (cases "sort_by_result_count items")
  case Nil
  then show ?thesis by simp
next
  case (Cons g gs)
  obtain k results where g: "g = (k, results)" by (cases g)
  have le: "\<forall>h\<in>set gs. length (snd h) \<le> length results"
    using sort_by_result_count_head[OF Cons] by (simp add: g)
  show ?thesis
  proof (cases "3000 \<le> length ([] @ take 3000 results)")
    case True
    have "table_loop [] (g # gs) = [] @ take 3000 results"
      unfolding g table_loop_Cons using True by (simp only: if_True)
    then show ?thesis by (simp add: Cons)
  next
    case False
    then have short: "length results < 3000" by simp
    have "table_loop [] (g # gs) = table_loop ([] @ take 3000 results) gs"
      unfolding g table_loop_Cons using False by (simp only: if_False)
    then have "table_loop [] (g # gs) = table_loop results gs" using short by simp
    moreover have "length (table_loop results gs) \<le> 5998"
      using le short by (intro table_loop_bound) auto
    ultimately show ?thesis by (simp add: Cons)
  qed
qed

lemma table_loop_prefix:
  assumes "length acc < 3000"
  shows "\<exists>n\<le>length gs.
           table_loop acc gs = acc @ concat (map (\<lambda>g. take 3000 (snd g)) (take n gs))
         \<and> (n < length gs \<longrightarrow> 3000 \<le> length (table_loop acc gs))
         \<and> (\<forall>m<n. length (acc @ concat (map (\<lambda>g. take 3000 (snd g)) (take m gs))) < 3000)"
  using assms
proof (induction gs arbitrary: acc)
  case Nil
  show ?case by simp
next
  case (Cons g gs)
  obtain k results where g: "g = (k, results)" by (cases g)
  let ?acc = "acc @ take 3000 results"
  show ?case
  proof (cases "3000 \<le> length ?acc")
    case True
    have "table_loop acc (g # gs) = ?acc"
      unfolding g table_loop_Cons using True by (simp only: if_True)
    then show ?thesis using True Cons.prems
      by (intro exI[of _ 1]) (simp add: g)
  next
    case False
    then have small: "length ?acc < 3000" by simp
    from Cons.IH[OF small] obtain n where n: "n \<le> length gs"
      and eq: "table_loop ?acc gs = ?acc @ concat (map (\<lambda>g. take 3000 (snd g)) (take n gs))"
      and full: "n < length gs \<longrightarrow> 3000 \<le> length (table_loop ?acc gs)"
      and before: "\<forall>m<n. length (?acc @ concat (map (\<lambda>g. take 3000 (snd g)) (take m gs))) < 3000"
      by blast
    have step: "table_loop acc (g # gs) = table_loop ?acc gs"
      unfolding g table_loop_Cons using False by (simp only: if_False)
    have "\<forall>m<Suc n. length (acc @ concat (map (\<lambda>g. take 3000 (snd g)) (take m (g # gs)))) < 3000"
    proof (intro allI impI)
      fix m assume m: "m < Suc n"
      show "length (acc @ concat (map (\<lambda>g. take 3000 (snd g)) (take m (g # gs)))) < 3000"
      proof (cases m)
        case 0
        then show ?thesis using Cons.prems by simp
      next
        case (Suc m')
        then have "m' < n" using m by simp
        then show ?thesis using before Suc by (simp add: g)
      qed
    qed
    then show ?thesis using n eq full step
      by (intro exI[of _ "Suc n"]) (simp add: g)
  qed
qed

text \<open>A list that is a run of one result followed by a run of another, of a
  different key, is grouped into the two runs.\<close>

lemma dict_append_found:
  "k \<notin> fst ` set d1 \<Longrightarrow> dict_append k v (d1 @ (k, vs) # d2) = d1 @ (k, vs @ [v]) # d2"
  by (induction d1) auto

lemma foldl_dict_append_replicate:
  "k \<notin> fst ` set d1 \<Longrightarrow> key r = k \<Longrightarrow>
   foldl (\<lambda>d v. dict_append (key v) v d) (d1 @ (k, vs) # d2) (replicate n r)
     = d1 @ (k, vs @ replicate n r) # d2"
proof (induction n arbitrary: vs)
  case 0
  show ?case by simp
next
  case (Suc n)
  then show ?case by (simp add: dict_append_found replicate_app_Cons_same)
qed

lemma group_by_key_two_runs:
  assumes "0 < n" and "0 < m" and "key a \<noteq> key b"
  shows "group_by_key key (replicate n a @ replicate m b)
           = [(key a, replicate n a), (key b, replicate m b)]"
proof -
  obtain n' m' where n: "n = Suc n'" and m: "m = Suc m'"
    using assms by (metis gr0_implies_Suc)
  have 1: "foldl (\<lambda>d v. dict_append (key v) v d) [] (replicate n a) = [(key a, replicate n a)]"
    using foldl_dict_append_replicate[of "key a" "[]" key a "[a]" "[]" n']
    by (simp add: n)
  have 2: "foldl (\<lambda>d v. dict_append (key v) v d) [(key a, replicate n a)] (replicate m b)
             = [(key a, replicate n a), (key b, replicate m b)]"
    using foldl_dict_append_replicate[of "key b" "[(key a, replicate n a)]" key b "[b]" "[]" m'] assms(3)
    by (simp add: m)
  show ?thesis by (simp add: group_by_key_def 1 2)
qed

text \<open>
  C2, as the code has it.  The table of a returned page is the concatenation
  of the first 3000 results of each of the leading ranked groups: the walk
  stops after the first group with which the table has reached 3000 rows, and
  before that group the table is shorter than 3000.  A group adds its first
  3000 results whatever the table already holds, so the table can exceed 3000
  rows; as the groups are ranked by size it never has more than 5998.
\<close>

theorem table_rows_bounded:
  assumes "show_benchmark_results pick url_for cache bname caseid = (Inr (ResultsPage p), cache', logged)"
  shows "length (benchmark_results_for_table p) \<le> 5998
     \<and> (\<exists>bucket n. cache_getitem cache bname = (Inr bucket, cache')
          \<and> n \<le> length (ranked_groups bucket caseid)
          \<and> benchmark_results_for_table p
              = concat (map (\<lambda>g. take 3000 (snd g)) (take n (ranked_groups bucket caseid)))
          \<and> (n < length (ranked_groups bucket caseid) \<longrightarrow> 3000 \<le> length (benchmark_results_for_table p))
          \<and> (\<forall>m<n. length (concat (map (\<lambda>g. take 3000 (snd g)) (take m (ranked_groups bucket caseid))))
                      < 3000))"
proof -
  from show_benchmark_results_page[OF assms] obtain bucket where
    get: "cache_getitem cache bname = (Inr bucket, cache')"
    and table: "benchmark_results_for_table p = table_loop [] (ranked_groups bucket caseid)"
    by blast
  have "length (benchmark_results_for_table p) \<le> 5998"
    unfolding table ranked_groups_def by (rule table_loop_ranked_bound)
  moreover from table_loop_prefix[of "[]" "ranked_groups bucket caseid"] obtain n where
    "n \<le> length (ranked_groups bucket caseid)"
    "table_loop [] (ranked_groups bucket caseid)
       = concat (map (\<lambda>g. take 3000 (snd g)) (take n (ranked_groups bucket caseid)))"
    "n < length (ranked_groups bucket caseid) \<longrightarrow> 3000 \<le> length (table_loop [] (ranked_groups bucket caseid))"
    "\<forall>m<n. length (concat (map (\<lambda>g. take 3000 (snd g)) (take m (ranked_groups bucket caseid)))) < 3000"
    by auto
  ultimately show ?thesis using get table by metis
qed

theorem table_rows_bounded_witness:
  "\<exists>p c l. show_benchmark_results pop_least url_for_path
      (cache_of ''b'' [bmr ''r1'' ''c'' ''h'' ''x'' 3 (Some 30) ''s'', bmr ''r2'' ''c'' ''h'' ''x'' 1 (Some 10) ''s'',
      bmr ''r3'' ''c'' ''h'' ''x'' 2 (Some 20) ''s'']) ''b'' ''c'' = (Inr (ResultsPage p), c, l)
     \<and> length (benchmark_results_for_table p) \<le> 5998"
proof -
  let ?B = "[bmr ''r1'' ''c'' ''h'' ''x'' 3 (Some 30) ''s'', bmr ''r2'' ''c'' ''h'' ''x'' 1 (Some 10) ''s'',
      bmr ''r3'' ''c'' ''h'' ''x'' 2 (Some 20) ''s'']"
  have get: "cache_getitem (cache_of ''b'' ?B) ''b'' = (Inr ?B, cache_of ''b'' ?B)"
    by (simp add: cache_getitem_def cache_of_def)
  have "plotted_units ?B ''c'' = {''s''}"
    by (simp add: plotted_units_def ranked_groups_def bmr_def group_by_key_def hw_ctx_key_of_def
        sort_by_result_count_def)
  then have "plotted_units ?B ''c'' \<noteq> {}" by simp
  from show_benchmark_results_units[OF get this, of pop_least url_for_path] obtain p l where
    eq: "show_benchmark_results pop_least url_for_path (cache_of ''b'' ?B) ''b'' ''c''
           = (Inr (ResultsPage p), cache_of ''b'' ?B, l)"
    by blast
  from table_rows_bounded[OF eq] show ?thesis using eq by blast
qed

text \<open>
  C2, as the claim states it, fails: 2000 results on one hardware followed by
  1500 on another, all of one case.  The first group leaves the table at 2000
  rows, below the cap, and the second adds all of its 1500: 3500 rows.
\<close>

theorem table_rows_exceed_cap_counterexample:
  "table_row_count (fst (show_benchmark_results pop_least url_for_path
      (cache_of ''b'' (replicate 2000 (bmr ''r1'' ''c'' ''h1'' ''x'' 1 None ''s'')
                     @ replicate 1500 (bmr ''r2'' ''c'' ''h2'' ''x'' 2 None ''s'')))
      ''b'' ''c'')) = Some 3500"
proof -
  let ?a = "bmr ''r1'' ''c'' ''h1'' ''x'' 1 None ''s''"
  let ?b = "bmr ''r2'' ''c'' ''h2'' ''x'' 2 None ''s''"
  let ?bucket = "replicate 2000 ?a @ replicate 1500 ?b"
  let ?cache = "cache_of ''b'' ?bucket"
  have get: "cache_getitem ?cache ''b'' = (Inr ?bucket, ?cache)"
    by (simp add: cache_getitem_def cache_of_def)
  have match: "filter (\<lambda>r. case_id r = ''c'') ?bucket = ?bucket"
    by (simp add: bmr_def filter_replicate)
  have ne: "filter (\<lambda>r. case_id r = ''c'') ?bucket \<noteq> []"
    unfolding match by simp
  have keys: "hw_ctx_key_of ?a \<noteq> hw_ctx_key_of ?b"
    by (simp add: hw_ctx_key_of_def bmr_def)
  have grp: "group_by_key hw_ctx_key_of ?bucket
               = [(hw_ctx_key_of ?a, replicate 2000 ?a), (hw_ctx_key_of ?b, replicate 1500 ?b)]"
    by (rule group_by_key_two_runs) (simp_all add: keys)
  have ranked: "ranked_groups ?bucket ''c''
               = [(hw_ctx_key_of ?a, replicate 2000 ?a), (hw_ctx_key_of ?b, replicate 1500 ?b)]"
    unfolding ranked_groups_def match grp by (simp add: sort_by_result_count_def)
  have table: "length (table_loop [] (ranked_groups ?bucket ''c'')) = 3500"
    unfolding ranked by (simp add: Let_def)
  obtain infos units where
    plot: "plot_loop url_for_path (ranked_groups ?bucket ''c'') (Map.empty, {}) = Inr (infos, units)"
    using plot_loop_total by blast
  have "unit ?a \<in> units"
    by (rule plot_loop_units_member[OF plot, of "(hw_ctx_key_of ?a, replicate 2000 ?a)"])
       (simp_all add: ranked)
  then have "units \<noteq> {}" by blast
  then show ?thesis
    using show_benchmark_results_run[OF get ne plot, of pop_least] table
    by (simp add: table_row_count_def)
qed

section \<open>The plot data\<close>

text \<open>
  C3, as the code has it.  The timestamps of a plotted series are the
  \<open>started_at\<close> of the results of its group in the order in which the
  results are stored under the benchmark name: the view groups and never
  sorts by time.  They are ascending when the stored results are.
\<close>

theorem plot_timestamps_in_bucket_order:
  assumes "show_benchmark_results pick url_for cache bname caseid = (Inr (ResultsPage p), cache', logged)"
    and "infos_for_uplots p key = Some info"
  shows "\<exists>bucket hwid ctxid hwname.
           cache_getitem cache bname = (Inr bucket, cache')
         \<and> key = hwid @ ''_'' @ ctxid
         \<and> data_for_uplot info ! 0 =
             map started_at
               (filter (\<lambda>r. case_id r = caseid \<and> hw_ctx_key_of r = (hwid, ctxid, hwname)) bucket)
         \<and> (sorted (map started_at bucket) \<longrightarrow> sorted (data_for_uplot info ! 0))"
proof -
  from show_benchmark_results_page[OF assms(1)] obtain bucket infos units where
    get: "cache_getitem cache bname = (Inr bucket, cache')"
    and plot: "plot_loop url_for (ranked_groups bucket caseid) (Map.empty, {}) = Inr (infos, units)"
    and infos: "infos_for_uplots p = infos"
    by blast
  have "infos key = Some info" using assms(2) infos by simp
  from plot_loop_infos[OF plot this] obtain hwid ctxid hwname results newest where
    mem: "((hwid, ctxid, hwname), results) \<in> set (ranked_groups bucket caseid)"
    and key: "key = hwid @ ''_'' @ ctxid"
    and info: "info = plot_info url_for ctxid results newest"
    by auto
  have results: "results =
      filter (\<lambda>r. case_id r = caseid \<and> hw_ctx_key_of r = (hwid, ctxid, hwname)) bucket"
    using mem ranked_groups_member by blast
  have ts: "data_for_uplot info ! 0 = map started_at results"
    by (simp add: info plot_info_def)
  have "sorted (map started_at bucket) \<longrightarrow> sorted (data_for_uplot info ! 0)"
    unfolding ts results by (simp add: sorted_filter)
  then show ?thesis using get key ts results by blast
qed

theorem plot_timestamps_in_bucket_order_witness:
  "\<exists>p c l info. show_benchmark_results pop_least url_for_path
      (cache_of ''b'' [bmr ''r1'' ''c'' ''h'' ''x'' 3 (Some 30) ''s'', bmr ''r2'' ''c'' ''h'' ''x'' 1 (Some 10) ''s'',
      bmr ''r3'' ''c'' ''h'' ''x'' 2 (Some 20) ''s'']) ''b'' ''c'' = (Inr (ResultsPage p), c, l)
     \<and> infos_for_uplots p ''h_x'' = Some info
     \<and> (\<exists>bucket hwid ctxid hwname.
           cache_getitem (cache_of ''b'' [bmr ''r1'' ''c'' ''h'' ''x'' 3 (Some 30) ''s'', bmr ''r2'' ''c'' ''h'' ''x'' 1 (Some 10) ''s'',
      bmr ''r3'' ''c'' ''h'' ''x'' 2 (Some 20) ''s'']) ''b'' = (Inr bucket, c)
         \<and> ''h_x'' = hwid @ ''_'' @ ctxid
         \<and> data_for_uplot info ! 0 =
             map started_at
               (filter (\<lambda>r. case_id r = ''c'' \<and> hw_ctx_key_of r = (hwid, ctxid, hwname)) bucket))"
proof -
  let ?B = "[bmr ''r1'' ''c'' ''h'' ''x'' 3 (Some 30) ''s'', bmr ''r2'' ''c'' ''h'' ''x'' 1 (Some 10) ''s'',
      bmr ''r3'' ''c'' ''h'' ''x'' 2 (Some 20) ''s'']"
  have get: "cache_getitem (cache_of ''b'' ?B) ''b'' = (Inr ?B, cache_of ''b'' ?B)"
    by (simp add: cache_getitem_def cache_of_def)
  have "plotted_units ?B ''c'' = {''s''}"
    by (simp add: plotted_units_def ranked_groups_def bmr_def group_by_key_def hw_ctx_key_of_def
        sort_by_result_count_def)
  then have "plotted_units ?B ''c'' \<noteq> {}" by simp
  from show_benchmark_results_units[OF get this, of pop_least url_for_path] obtain p l where
    eq: "show_benchmark_results pop_least url_for_path (cache_of ''b'' ?B) ''b'' ''c''
           = (Inr (ResultsPage p), cache_of ''b'' ?B, l)"
    by blast
  have "plot_data (fst (show_benchmark_results pop_least url_for_path (cache_of ''b'' ?B) ''b'' ''c'')) ''h_x''
          = Some [[3, 1, 2], [30, 10, 20]]"
    by (simp add: show_benchmark_results_def cache_of_def cache_getitem_def bmr_def group_by_key_def
       hw_ctx_key_of_def sort_by_result_count_def set_pop_def newest_of_many_results_def plot_info_def
       plot_data_def)
  then obtain info where info: "infos_for_uplots p ''h_x'' = Some info"
    unfolding eq by (auto simp: plot_data_def)
  from plot_timestamps_in_bucket_order[OF eq info] show ?thesis using eq info by blast
qed

text \<open>
  C3, as the claim states it, fails: three results of one group stored with
  the times 3, 1, 2 are plotted in that order.
\<close>

theorem plot_timestamps_unsorted_counterexample:
  "plot_data (fst (show_benchmark_results pop_greatest url_for_path
      (cache_of ''b'' [bmr ''r1'' ''c'' ''h'' ''x'' 3 (Some 30) ''s'', bmr ''r2'' ''c'' ''h'' ''x'' 1 (Some 10) ''s'',
      bmr ''r3'' ''c'' ''h'' ''x'' 2 (Some 20) ''s'']) ''b'' ''c'')) ''h_x'' = Some [[3, 1, 2], [30, 10, 20]]
   \<and> \<not> sorted [3, 1, 2 :: real]"
  by (simp add: show_benchmark_results_def cache_of_def cache_getitem_def bmr_def group_by_key_def
       hw_ctx_key_of_def sort_by_result_count_def set_pop_def newest_of_many_results_def plot_info_def
       plot_data_def)

text \<open>The two lists of the plot data: one timestamp for every result of the
  group, one mean for every result that has a mean.\<close>

lemma plot_info_lengths:
  "length (data_for_uplot (plot_info url_for ctxid results newest) ! 0) = length results"
  "length (data_for_uplot (plot_info url_for ctxid results newest) ! 1)
     = length (filter (\<lambda>r. mean r \<noteq> None) results)"
  by (simp_all add: plot_info_def)

text \<open>
  C6 fails on the code: of three results the second has no mean.  The list of
  timestamps keeps all three results and the list of means drops the second,
  so the lists have the lengths 3 and 2 and the mean at index 1 (30) belongs
  to the result whose timestamp is at index 2.
\<close>

theorem plot_arrays_misaligned:
  "plot_data (fst (show_benchmark_results pick url_for
      (cache_of ''b'' [bmr ''r1'' ''c'' ''h'' ''x'' 1 (Some 10) ''s'', bmr ''r2'' ''c'' ''h'' ''x'' 2 None ''s'',
      bmr ''r3'' ''c'' ''h'' ''x'' 3 (Some 30) ''s'']) ''b'' ''c'')) ''h_x'' = Some [[1, 2, 3], [10, 30]]"
  by (simp add: show_benchmark_results_def cache_of_def cache_getitem_def bmr_def group_by_key_def
       hw_ctx_key_of_def sort_by_result_count_def set_pop_def newest_of_many_results_def plot_info_def
       plot_data_def)

section \<open>The unit of the ordinate\<close>

text \<open>
  C5, as the code has it.  When the plotted groups show more than one unit,
  the view logs the warning, returns the page, and labels the ordinate with
  the (longer form of the) unit that \<^verbatim>\<open>set.pop\<close> returns: one of the units
  seen, not a particular one.
\<close>

theorem mixed_units_warn_and_continue:
  assumes "cache_getitem cache bname = (Inr bucket, cache')"
    and "1 < card (plotted_units bucket caseid)"
    and "pick (plotted_units bucket caseid) \<in> plotted_units bucket caseid"
  shows "\<exists>p. show_benchmark_results pick url_for cache bname caseid =
               (Inr (ResultsPage p), cache',
                [Warning_saw_more_than_one_unit bname caseid (plotted_units bucket caseid)])
           \<and> (\<exists>u\<in>plotted_units bucket caseid. y_unit_for_all_plots p = maybe_longer_unit u)"
proof -
  have ne: "plotted_units bucket caseid \<noteq> {}" using assms(2) by auto
  from show_benchmark_results_units[OF assms(1) ne, of pick url_for] obtain p where
    "show_benchmark_results pick url_for cache bname caseid =
           (Inr (ResultsPage p), cache',
            if card (plotted_units bucket caseid) \<noteq> 1
            then [Warning_saw_more_than_one_unit bname caseid (plotted_units bucket caseid)] else [])"
    "y_unit_for_all_plots p = maybe_longer_unit (pick (plotted_units bucket caseid))"
    by blast
  then show ?thesis using assms(2,3) by auto
qed

theorem mixed_units_warn_and_continue_witness:
  "cache_getitem (cache_of ''b'' [bmr ''r1'' ''c'' ''h'' ''x'' 1 (Some 10) ''ns'', bmr ''r2'' ''c'' ''h'' ''x'' 2 (Some 20) ''ms'',
      bmr ''r3'' ''c'' ''h'' ''x'' 3 (Some 30) ''ns'']) ''b''
     = (Inr [bmr ''r1'' ''c'' ''h'' ''x'' 1 (Some 10) ''ns'', bmr ''r2'' ''c'' ''h'' ''x'' 2 (Some 20) ''ms'',
      bmr ''r3'' ''c'' ''h'' ''x'' 3 (Some 30) ''ns''], cache_of ''b'' [bmr ''r1'' ''c'' ''h'' ''x'' 1 (Some 10) ''ns'', bmr ''r2'' ''c'' ''h'' ''x'' 2 (Some 20) ''ms'',
      bmr ''r3'' ''c'' ''h'' ''x'' 3 (Some 30) ''ns''])
   \<and> 1 < card (plotted_units [bmr ''r1'' ''c'' ''h'' ''x'' 1 (Some 10) ''ns'', bmr ''r2'' ''c'' ''h'' ''x'' 2 (Some 20) ''ms'',
      bmr ''r3'' ''c'' ''h'' ''x'' 3 (Some 30) ''ns''] ''c'')
   \<and> (\<exists>p. show_benchmark_results pop_least url_for_path (cache_of ''b'' [bmr ''r1'' ''c'' ''h'' ''x'' 1 (Some 10) ''ns'', bmr ''r2'' ''c'' ''h'' ''x'' 2 (Some 20) ''ms'',
      bmr ''r3'' ''c'' ''h'' ''x'' 3 (Some 30) ''ns'']) ''b'' ''c'' =
               (Inr (ResultsPage p), cache_of ''b'' [bmr ''r1'' ''c'' ''h'' ''x'' 1 (Some 10) ''ns'', bmr ''r2'' ''c'' ''h'' ''x'' 2 (Some 20) ''ms'',
      bmr ''r3'' ''c'' ''h'' ''x'' 3 (Some 30) ''ns''],
                [Warning_saw_more_than_one_unit ''b'' ''c'' {''ms'', ''ns''}])
           \<and> y_unit_for_all_plots p = ''ms'')"
proof -
  let ?B = "[bmr ''r1'' ''c'' ''h'' ''x'' 1 (Some 10) ''ns'', bmr ''r2'' ''c'' ''h'' ''x'' 2 (Some 20) ''ms'',
      bmr ''r3'' ''c'' ''h'' ''x'' 3 (Some 30) ''ns'']"
  have get: "cache_getitem (cache_of ''b'' ?B) ''b'' = (Inr ?B, cache_of ''b'' ?B)"
    by (simp add: cache_getitem_def cache_of_def)
  have units: "plotted_units ?B ''c'' = {''ms'', ''ns''}"
    by (simp add: plotted_units_def ranked_groups_def bmr_def group_by_key_def hw_ctx_key_of_def
        sort_by_result_count_def insert_commute)
  have card: "1 < card (plotted_units ?B ''c'')" by (simp add: units)
  have pick: "pop_least (plotted_units ?B ''c'') \<in> plotted_units ?B ''c''"
    by (simp add: units pop_least_def)
  have long: "maybe_longer_unit ''ms'' = ''ms''"
    by (simp add: maybe_longer_unit_def UNIT_REPLACE_MAP_def)
  from mixed_units_warn_and_continue[where pick = pop_least and url_for = url_for_path, OF get card pick]
  obtain p where
    eq: "show_benchmark_results pop_least url_for_path (cache_of ''b'' ?B) ''b'' ''c'' =
               (Inr (ResultsPage p), cache_of ''b'' ?B,
                [Warning_saw_more_than_one_unit ''b'' ''c'' (plotted_units ?B ''c'')])"
    and u: "\<exists>u\<in>plotted_units ?B ''c''. y_unit_for_all_plots p = maybe_longer_unit u"
    by blast
  have "y_unit (fst (show_benchmark_results pop_least url_for_path (cache_of ''b'' ?B) ''b'' ''c'')) = Some ''ms''"
    by (simp add: show_benchmark_results_def cache_of_def cache_getitem_def bmr_def group_by_key_def
       hw_ctx_key_of_def sort_by_result_count_def set_pop_def newest_of_many_results_def plot_info_def
       y_unit_def pop_least_def maybe_longer_unit_def UNIT_REPLACE_MAP_def insert_commute)
  then have "y_unit_for_all_plots p = ''ms''" unfolding eq by (simp add: y_unit_def)
  then show ?thesis using get card eq units by auto
qed

text \<open>
  C5, as the claim states it, fails: with the units \<open>ns\<close> and \<open>ms\<close> seen and
  a \<^verbatim>\<open>set.pop\<close> that returns \<open>ns\<close>, the label is \<open>ns\<close>, while the
  least unit is \<open>ms\<close>.
\<close>

theorem representative_unit_not_smallest_counterexample:
  "y_unit (fst (show_benchmark_results pop_greatest url_for_path
      (cache_of ''b'' [bmr ''r1'' ''c'' ''h'' ''x'' 1 (Some 10) ''ns'', bmr ''r2'' ''c'' ''h'' ''x'' 2 (Some 20) ''ms'',
      bmr ''r3'' ''c'' ''h'' ''x'' 3 (Some 30) ''ns'']) ''b'' ''c'')) = Some ''ns''
   \<and> plotted_units [bmr ''r1'' ''c'' ''h'' ''x'' 1 (Some 10) ''ns'', bmr ''r2'' ''c'' ''h'' ''x'' 2 (Some 20) ''ms'',
      bmr ''r3'' ''c'' ''h'' ''x'' 3 (Some 30) ''ns''] ''c'' = {''ms'', ''ns''}
   \<and> pop_greatest {''ms'', ''ns''} \<in> {''ms'', ''ns''}
   \<and> Min {''ms'', ''ns''} = ''ms''"
  by (simp add: show_benchmark_results_def cache_of_def cache_getitem_def bmr_def group_by_key_def
       hw_ctx_key_of_def sort_by_result_count_def set_pop_def newest_of_many_results_def plot_info_def
       y_unit_def pop_greatest_def maybe_longer_unit_def UNIT_REPLACE_MAP_def plotted_units_def ranked_groups_def
       insert_commute)

text \<open>When no group of the case has three results, nothing is plotted, no
  unit is seen and the view ends with the exception of \<^verbatim>\<open>set.pop\<close>.\<close>

lemma show_benchmark_results_no_plot:
  assumes "cache_getitem cache bname = (Inr bucket, cache')"
    and "filter (\<lambda>r. case_id r = caseid) bucket \<noteq> []"
    and "plotted_units bucket caseid = {}"
  shows "show_benchmark_results pick url_for cache bname caseid =
           (Inl (KeyError ''pop from an empty set''), cache',
            [Warning_saw_more_than_one_unit bname caseid {}])"
proof -
  obtain infos units where
    plot: "plot_loop url_for (ranked_groups bucket caseid) (Map.empty, {}) = Inr (infos, units)"
    using plot_loop_total by blast
  have "units = {}" using plot_loop_plotted_units[OF plot] assms(3) by simp
  then show ?thesis
    using show_benchmark_results_run[OF assms(1,2) plot, of pick] by simp
qed

text \<open>
  C10 fails on the code: the cache holds a single result of the benchmark and
  case.  No group reaches three results, \<^verbatim>\<open>units_seen\<close> stays empty, the
  warning is logged and \<^verbatim>\<open>units_seen.pop()\<close> raises \<^verbatim>\<open>KeyError\<close>.
\<close>

theorem show_benchmark_results_raises_without_plot:
  "show_benchmark_results pick url_for (cache_of ''b'' [bmr ''r1'' ''c'' ''h'' ''x'' 1 (Some 2) ''s'']) ''b'' ''c''
  = (Inl (KeyError ''pop from an empty set''), cache_of ''b'' [bmr ''r1'' ''c'' ''h'' ''x'' 1 (Some 2) ''s''],
       [Warning_saw_more_than_one_unit ''b'' ''c'' {}])"
  by (simp add: show_benchmark_results_def cache_of_def cache_getitem_def bmr_def group_by_key_def
       hw_ctx_key_of_def sort_by_result_count_def set_pop_def)

section \<open>Looking up an unknown benchmark name\<close>

text \<open>\<^verbatim>\<open>show_benchmark_cases\<close> tests membership first: an unknown name is
  reported and the cache is left as it was.  \<^verbatim>\<open>show_benchmark_results\<close>
  indexes the dictionary: on a plain \<^verbatim>\<open>dict\<close> the \<^verbatim>\<open>KeyError\<close> is caught
  and the name is reported, on a \<^verbatim>\<open>defaultdict(list)\<close> the name is stored
  with an empty list and the view goes on.\<close>

lemma show_benchmark_cases_unknown:
  assumes "by_benchmark_name cache bname = None"
  shows "show_benchmark_cases cache bname
           = (Inr (Text (''benchmark name not known: `'' @ bname @ ''`'')), cache)"
  using assms by (simp add: show_benchmark_cases_def cache_contains_def)

lemma show_benchmark_results_unknown_plain_dict:
  assumes "by_benchmark_name cache bname = None" and "default_factory cache = None"
  shows "show_benchmark_results pick url_for cache bname caseid
           = (Inr (Text (''benchmark name not known: `'' @ bname @ ''`'')), cache, [])"
  using assms by (simp add: show_benchmark_results_def cache_getitem_def)

lemma show_benchmark_results_unknown_defaultdict:
  assumes "by_benchmark_name cache bname = None" and "default_factory cache = Some []"
  shows "show_benchmark_results pick url_for cache bname caseid
           = (Inr (Text (''no results found for benchmark `'' @ bname @ ''` and case `'' @ caseid @ ''`'')),
              cache\<lparr>by_benchmark_name := (by_benchmark_name cache)(bname \<mapsto> [])\<rparr>, [])"
  using assms by (simp add: show_benchmark_results_def cache_getitem_def)

text \<open>
  C1 fails on the code for \<^verbatim>\<open>show_benchmark_results\<close>: the cache knows the
  benchmark \<open>b\<close> only and the view is asked for \<open>foo\<close>.  The name is not
  reported as unknown (the answer is that of a known benchmark without results
  for the case), and afterwards the dictionary has the key \<open>foo\<close>.
\<close>

theorem show_benchmark_results_unknown_name_inserts_key:
  "show_benchmark_results pick url_for
      (cache_of ''b'' [bmr ''r1'' ''c'' ''h'' ''x'' 1 (Some 2) ''s'']) ''foo'' ''bar''
     = (Inr (Text ''no results found for benchmark `foo` and case `bar`''),
        (cache_of ''b'' [bmr ''r1'' ''c'' ''h'' ''x'' 1 (Some 2) ''s''])
          \<lparr>by_benchmark_name := [''b'' \<mapsto> [bmr ''r1'' ''c'' ''h'' ''x'' 1 (Some 2) ''s''], ''foo'' \<mapsto> []]\<rparr>,
        [])
   \<and> dom (by_benchmark_name (cache_of ''b'' [bmr ''r1'' ''c'' ''h'' ''x'' 1 (Some 2) ''s''])) = {''b''}
   \<and> dom (by_benchmark_name (fst (snd (show_benchmark_results pick url_for
      (cache_of ''b'' [bmr ''r1'' ''c'' ''h'' ''x'' 1 (Some 2) ''s'']) ''foo'' ''bar'')))) = {''b'', ''foo''}"
  by (auto simp: show_benchmark_results_def cache_getitem_def cache_of_def)

section \<open>The compare token\<close>

lemma str_find_Some:
  "str_find sep s = Some i \<Longrightarrow> s = take i s @ sep @ drop (i + length sep) s"
proof (induction s arbitrary: i)
  case Nil
  then show ?case by (simp split: if_splits)
next
  case (Cons x xs)
  show ?case
  proof (cases "take (length sep) (x # xs) = sep")
    case True
    then have "i = 0" using Cons.prems by simp
    moreover have "x # xs = take (length sep) (x # xs) @ drop (length sep) (x # xs)"
      by (simp only: append_take_drop_id)
    ultimately show ?thesis using True by simp
  next
    case False
    then obtain j where j: "str_find sep xs = Some j" and i: "i = Suc j"
      using Cons.prems by auto
    from Cons.IH[OF j] have "xs = take j xs @ sep @ drop (j + length sep) xs" .
    then show ?thesis by (simp add: i)
  qed
qed

lemma str_find_first:
  "s = b @ sep @ c \<Longrightarrow> \<exists>i\<le>length b. str_find sep s = Some i"
proof (induction s arbitrary: b)
  case Nil
  then show ?case by simp
next
  case (Cons x xs)
  show ?case
  proof (cases "take (length sep) (x # xs) = sep")
    case True
    then show ?thesis by simp
  next
    case False
    have "b \<noteq> []"
    proof
      assume "b = []"
      then have "x # xs = sep @ c" using Cons.prems by simp
      then have "take (length sep) (x # xs) = sep" by simp
      then show False using False by simp
    qed
    then obtain b' where b: "b = x # b'" and xs: "xs = b' @ sep @ c"
      using Cons.prems by (cases b) auto
    from Cons.IH[OF xs] obtain j where "j \<le> length b'" "str_find sep xs = Some j" by blast
    then show ?thesis using False by (simp add: b)
  qed
qed

lemma str_contains_iff: "str_contains sep s \<longleftrightarrow> (\<exists>b c. s = b @ sep @ c)"
proof
  assume "str_contains sep s"
  then obtain i where "str_find sep s = Some i" by (auto simp: str_contains_def)
  from str_find_Some[OF this] show "\<exists>b c. s = b @ sep @ c" by blast
next
  assume "\<exists>b c. s = b @ sep @ c"
  then show "str_contains sep s" using str_find_first by (fastforce simp: str_contains_def)
qed

lemma str_split1_first:
  assumes "s = b @ sep @ c" and "\<forall>b' c'. s = b' @ sep @ c' \<longrightarrow> length b \<le> length b'"
  shows "str_split1 sep s = [b, c]"
proof -
  from str_find_first[OF assms(1)] obtain i where i: "i \<le> length b" "str_find sep s = Some i"
    by blast
  from str_find_Some[OF i(2)] have dec: "s = take i s @ sep @ drop (i + length sep) s" .
  have "length (take i s) = i" using dec i(1) assms(1) by simp
  then have "length b \<le> i" using assms(2) dec by metis
  then have eq: "i = length b" using i(1) by simp
  have "take i s = b" "drop (i + length sep) s = c" by (simp_all add: eq assms(1))
  then show ?thesis by (simp add: str_split1_def i(2))
qed



lemma first_occurrence_by_find:
  assumes "str_find sep s = Some (length b)" and "s = b' @ sep @ c'"
  shows "length b \<le> length b'"
  using str_find_first[OF assms(2)] assms(1) by auto


lemma Compare_get_no_separator:
  assumes "\<not> (\<exists>b c. compare_ids = b @ ''...'' @ c)"
  shows "Compare_get url_for get_comparisons page subtitle compare_ids st =
           (Inr (ErrorPage ''Got unexpected URL path pattern. Expected: <id>...<id>'' None subtitle), st)"
  using assms by (simp add: Compare_get_def str_contains_iff)

lemma Compare_get_split:
  assumes "compare_ids = b @ ''...'' @ c"
    and "\<forall>b' c'. compare_ids = b' @ ''...'' @ c' \<longrightarrow> length b \<le> length b'"
  shows "Compare_get url_for get_comparisons page subtitle compare_ids st =
           (if b = [] then
              (Inr (ErrorPage
                 ''No baseline ID was provided. Expected format: <baseline_id>...<contender_id>''
                 None subtitle), st)
            else if c = [] then
              (Inr (ErrorPage
                 ''No contender ID was provided. Expected format: <baseline-id>...<contender-id>''
                 None subtitle), st)
            else compare_and_render url_for get_comparisons page subtitle b c st)"
proof -
  have "str_contains ''...'' compare_ids" using assms(1) str_contains_iff by blast
  moreover have "str_split1 ''...'' compare_ids = [b, c]" by (rule str_split1_first[OF assms])
  ultimately show ?thesis by (simp add: Compare_get_def)
qed



section \<open>The comparisons\<close>

lemma set_compare_url_sides:
  assumes "set_compare_url url_for c = Inr c'"
  shows "baseline c' = baseline c \<and> contender c' = contender c
       \<and> (compare_benchmarks_url c' \<noteq> None \<longleftrightarrow> truthy_dict (baseline c) \<and> truthy_dict (contender c))"
  using assms by (auto simp: set_compare_url_def split: if_splits sum.splits)

lemma set_compare_url_link:
  assumes "set_compare_url url_for c = Inr c'"
    and "baseline c = Some bd" and "contender c = Some cd"
    and "map_of bd ''benchmark_result_id'' = Some bi"
    and "map_of cd ''benchmark_result_id'' = Some ci"
  shows "compare_benchmarks_url c' =
           Some (url_for ''app.compare-benchmark-results'' (bi @ ''...'' @ ci))"
proof -
  have "bd \<noteq> []" "cd \<noteq> []" using assms(4,5) by auto
  then have "truthy_dict (baseline c) \<and> truthy_dict (contender c)"
    using assms(2,3) by (simp add: truthy_dict_def)
  then show ?thesis
    using assms by (auto simp: set_compare_url_def benchmark_result_id_of_def)
qed

lemma set_compare_url_total:
  assumes "\<forall>d. baseline c = Some d \<or> contender c = Some d \<longrightarrow> map_of d ''benchmark_result_id'' \<noteq> None"
  shows "\<exists>c'. set_compare_url url_for c = Inr c'"
proof (cases "truthy_dict (baseline c) \<and> truthy_dict (contender c)")
  case True
  then obtain bd cd where s: "baseline c = Some bd" "contender c = Some cd"
    by (auto simp: truthy_dict_def split: option.splits)
  have "map_of bd ''benchmark_result_id'' \<noteq> None" "map_of cd ''benchmark_result_id'' \<noteq> None"
    using assms s by blast+
  then obtain bi ci where "map_of bd ''benchmark_result_id'' = Some bi"
    "map_of cd ''benchmark_result_id'' = Some ci" by auto
  then show ?thesis using True s
    by (simp add: set_compare_url_def benchmark_result_id_of_def)
next
  case False
  then show ?thesis by (auto simp: set_compare_url_def)
qed

lemma truthy_dict_present:
  assumes "\<forall>d. baseline c = Some d \<or> contender c = Some d \<longrightarrow> map_of d ''benchmark_result_id'' \<noteq> None"
  shows "truthy_dict (baseline c) \<longleftrightarrow> baseline c \<noteq> None"
    and "truthy_dict (contender c) \<longleftrightarrow> contender c \<noteq> None"
  using assms by (auto simp: truthy_dict_def split: option.splits)

lemma set_compare_urls_ok:
  assumes "\<forall>x\<in>set cs. \<forall>d. baseline x = Some d \<or> contender x = Some d
              \<longrightarrow> map_of d ''benchmark_result_id'' \<noteq> None"
  shows "\<exists>cs'. set_compare_urls url_for cs = Inr cs'
          \<and> map baseline cs' = map baseline cs \<and> map contender cs' = map contender cs
          \<and> (\<forall>x\<in>set cs'. (compare_benchmarks_url x \<noteq> None) = (baseline x \<noteq> None \<and> contender x \<noteq> None))
          \<and> (\<forall>x\<in>set cs'. \<forall>bd cd bi ci.
                 baseline x = Some bd \<and> contender x = Some cd
                 \<and> map_of bd ''benchmark_result_id'' = Some bi
                 \<and> map_of cd ''benchmark_result_id'' = Some ci
                 \<longrightarrow> compare_benchmarks_url x =
                       Some (url_for ''app.compare-benchmark-results'' (bi @ ''...'' @ ci)))"
  using assms
proof (induction cs)
  case Nil
  show ?case by simp
next
  case (Cons c cs)
  have wf: "\<forall>d. baseline c = Some d \<or> contender c = Some d \<longrightarrow> map_of d ''benchmark_result_id'' \<noteq> None"
    using Cons.prems by simp
  from set_compare_url_total[OF wf] obtain c' where c': "set_compare_url url_for c = Inr c'"
    by blast
  note sides = set_compare_url_sides[OF c']
  have iff: "(compare_benchmarks_url c' \<noteq> None) = (baseline c' \<noteq> None \<and> contender c' \<noteq> None)"
    using sides truthy_dict_present[OF wf] by simp
  have link: "\<forall>bd cd bi ci.
                 baseline c' = Some bd \<and> contender c' = Some cd
                 \<and> map_of bd ''benchmark_result_id'' = Some bi
                 \<and> map_of cd ''benchmark_result_id'' = Some ci
                 \<longrightarrow> compare_benchmarks_url c' =
                       Some (url_for ''app.compare-benchmark-results'' (bi @ ''...'' @ ci))"
    using set_compare_url_link[OF c'] sides by simp
  from Cons have "\<exists>cs'. set_compare_urls url_for cs = Inr cs'
          \<and> map baseline cs' = map baseline cs \<and> map contender cs' = map contender cs
          \<and> (\<forall>x\<in>set cs'. (compare_benchmarks_url x \<noteq> None) = (baseline x \<noteq> None \<and> contender x \<noteq> None))
          \<and> (\<forall>x\<in>set cs'. \<forall>bd cd bi ci.
                 baseline x = Some bd \<and> contender x = Some cd
                 \<and> map_of bd ''benchmark_result_id'' = Some bi
                 \<and> map_of cd ''benchmark_result_id'' = Some ci
                 \<longrightarrow> compare_benchmarks_url x =
                       Some (url_for ''app.compare-benchmark-results'' (bi @ ''...'' @ ci)))"
    by simp
  then obtain cs' where cs': "set_compare_urls url_for cs = Inr cs'"
    and m: "map baseline cs' = map baseline cs" "map contender cs' = map contender cs"
    and r: "\<forall>x\<in>set cs'. (compare_benchmarks_url x \<noteq> None) = (baseline x \<noteq> None \<and> contender x \<noteq> None)"
    and l: "\<forall>x\<in>set cs'. \<forall>bd cd bi ci.
                 baseline x = Some bd \<and> contender x = Some cd
                 \<and> map_of bd ''benchmark_result_id'' = Some bi
                 \<and> map_of cd ''benchmark_result_id'' = Some ci
                 \<longrightarrow> compare_benchmarks_url x =
                       Some (url_for ''app.compare-benchmark-results'' (bi @ ''...'' @ ci))"
    by blast
  have "set_compare_urls url_for (c # cs) = Inr (c' # cs')" by (simp add: c' cs')
  moreover have "map baseline (c' # cs') = map baseline (c # cs)"
    "map contender (c' # cs') = map contender (c # cs)" using m sides by simp_all
  moreover have "\<forall>x\<in>set (c' # cs'). (compare_benchmarks_url x \<noteq> None) = (baseline x \<noteq> None \<and> contender x \<noteq> None)"
    using r iff by simp
  moreover have "\<forall>x\<in>set (c' # cs'). \<forall>bd cd bi ci.
                 baseline x = Some bd \<and> contender x = Some cd
                 \<and> map_of bd ''benchmark_result_id'' = Some bi
                 \<and> map_of cd ''benchmark_result_id'' = Some ci
                 \<longrightarrow> compare_benchmarks_url x =
                       Some (url_for ''app.compare-benchmark-results'' (bi @ ''...'' @ ci))"
    using l link by simp
  ultimately show ?case by blast
qed

text \<open>
  C9.  Let every side that is present carry its \<^verbatim>\<open>benchmark_result_id\<close>, the
  key that \<^verbatim>\<open>_compare\<close> reads.  Then \<^verbatim>\<open>_compare\<close> returns, it leaves the
  sides of the comparisons as they are, and a comparison that it returns has
  a link if and only if both of its sides are present; the link is the URL of
  the view for the two ids joined by \<open>...\<close>.
\<close>

theorem compare_link_iff_both_sides:
  assumes "get_comparisons baseline_id contender_id st = ((comparisons, errmsg), st')"
    and "\<forall>x\<in>set comparisons. \<forall>d. baseline x = Some d \<or> contender x = Some d
              \<longrightarrow> map_of d ''benchmark_result_id'' \<noteq> None"
  shows "\<exists>cs e. Compare_compare url_for get_comparisons baseline_id contender_id st = (Inr (cs, e), st')
          \<and> (\<not> truthy_str errmsg \<longrightarrow>
                map baseline cs = map baseline comparisons
              \<and> map contender cs = map contender comparisons)
          \<and> (\<forall>x\<in>set cs. (compare_benchmarks_url x \<noteq> None) = (baseline x \<noteq> None \<and> contender x \<noteq> None))
          \<and> (\<forall>x\<in>set cs. \<forall>bd cd bi ci.
                 baseline x = Some bd \<and> contender x = Some cd
                 \<and> map_of bd ''benchmark_result_id'' = Some bi
                 \<and> map_of cd ''benchmark_result_id'' = Some ci
                 \<longrightarrow> compare_benchmarks_url x =
                       Some (url_for ''app.compare-benchmark-results'' (bi @ ''...'' @ ci)))"
proof (cases "truthy_str errmsg")
  case True
  then have "Compare_compare url_for get_comparisons baseline_id contender_id st = (Inr ([], errmsg), st')"
    using assms(1) by (simp add: Compare_compare_def)
  then show ?thesis using True by simp
next
  case False
  from set_compare_urls_ok[OF assms(2), of url_for] obtain cs where
    cs: "set_compare_urls url_for comparisons = Inr cs"
    and rest: "map baseline cs = map baseline comparisons \<and> map contender cs = map contender comparisons
          \<and> (\<forall>x\<in>set cs. (compare_benchmarks_url x \<noteq> None) = (baseline x \<noteq> None \<and> contender x \<noteq> None))
          \<and> (\<forall>x\<in>set cs. \<forall>bd cd bi ci.
                 baseline x = Some bd \<and> contender x = Some cd
                 \<and> map_of bd ''benchmark_result_id'' = Some bi
                 \<and> map_of cd ''benchmark_result_id'' = Some ci
                 \<longrightarrow> compare_benchmarks_url x =
                       Some (url_for ''app.compare-benchmark-results'' (bi @ ''...'' @ ci)))"
    by blast
  have "Compare_compare url_for get_comparisons baseline_id contender_id st = (Inr (cs, None), st')"
    using assms(1) False cs by (simp add: Compare_compare_def)
  then show ?thesis using rest by blast
qed

theorem compare_link_iff_both_sides_witness:
  "Compare_compare url_for_path
     (get_comparisons_fixed
        [\<lparr>baseline = Some [(''benchmark_result_id'', ''b1'')],
          contender = Some [(''benchmark_result_id'', ''c1'')],
          compare_benchmarks_url = None\<rparr>,
         \<lparr>baseline = Some [(''benchmark_result_id'', ''b2'')],
          contender = None,
          compare_benchmarks_url = None\<rparr>] None) ''x'' ''y'' 0
   = (Inr ([\<lparr>baseline = Some [(''benchmark_result_id'', ''b1'')],
             contender = Some [(''benchmark_result_id'', ''c1'')],
             compare_benchmarks_url = Some ''/app.compare-benchmark-results/b1...c1''\<rparr>,
            \<lparr>baseline = Some [(''benchmark_result_id'', ''b2'')],
             contender = None,
             compare_benchmarks_url = None\<rparr>], None), 1)"
proof -
  let ?cs = "[\<lparr>baseline = Some [(''benchmark_result_id'', ''b1'')],
          contender = Some [(''benchmark_result_id'', ''c1'')],
          compare_benchmarks_url = None\<rparr>,
         \<lparr>baseline = Some [(''benchmark_result_id'', ''b2'')],
          contender = None,
          compare_benchmarks_url = None\<rparr>]"
  have 1: "get_comparisons_fixed ?cs None ''x'' ''y'' 0 = ((?cs, None), 1)"
    by (simp add: get_comparisons_fixed_def)
  have 2: "\<forall>x\<in>set ?cs. \<forall>d. baseline x = Some d \<or> contender x = Some d
              \<longrightarrow> map_of d ''benchmark_result_id'' \<noteq> None"
    by auto
  show ?thesis
    using compare_link_iff_both_sides[where get_comparisons = "get_comparisons_fixed ?cs None"
        and baseline_id = "''x''" and contender_id = "''y''" and st = 0 and url_for = url_for_path,
        OF 1 2]
    by (simp add: Compare_compare_def get_comparisons_fixed_def set_compare_url_def
        truthy_dict_def truthy_str_def benchmark_result_id_of_def url_for_path_def)
qed

text \<open>
  C8.  For a token that passes the checks, when \<^verbatim>\<open>get_comparisons\<close> gives no
  error message and no comparison, the answer is the page \<open>comparison yielded
  0 benchmark results\<close> at the level \<open>info\<close>.  No token that fails the checks
  and no comparison that fails with an error message is answered with that
  page.
\<close>

theorem empty_comparison_is_distinct:
  assumes "compare_ids = b @ ''...'' @ c"
    and "\<forall>b' c'. compare_ids = b' @ ''...'' @ c' \<longrightarrow> length b \<le> length b'"
    and "b \<noteq> []" and "c \<noteq> []"
    and "get_comparisons b c st = (([], errmsg), st')"
    and "\<not> truthy_str errmsg"
  shows "Compare_get url_for get_comparisons page subtitle compare_ids st =
           (Inr (ErrorPage ''comparison yielded 0 benchmark results'' (Some ''info'') subtitle), st')
       \<and> (\<forall>ids gc s.
             (\<not> (\<exists>b c. ids = b @ ''...'' @ c)
              \<or> (\<exists>b c. ids = b @ ''...'' @ c
                    \<and> (\<forall>b' c'. ids = b' @ ''...'' @ c' \<longrightarrow> length b \<le> length b')
                    \<and> (b = [] \<or> c = [])))
             \<longrightarrow> fst (Compare_get url_for gc page subtitle ids s)
                   \<noteq> Inr (ErrorPage ''comparison yielded 0 benchmark results'' (Some ''info'') subtitle))
       \<and> (\<forall>gc b2 c2 s cs e s2.
             gc b2 c2 s = ((cs, e), s2) \<and> truthy_str e
             \<longrightarrow> fst (compare_and_render url_for gc page subtitle b2 c2 s)
                   \<noteq> Inr (ErrorPage ''comparison yielded 0 benchmark results'' (Some ''info'') subtitle))"
proof (intro conjI allI impI)
  have "compare_and_render url_for get_comparisons page subtitle b c st =
          (Inr (ErrorPage ''comparison yielded 0 benchmark results'' (Some ''info'') subtitle), st')"
    using assms(5,6) by (simp add: compare_and_render_def Compare_compare_def)
  then show "Compare_get url_for get_comparisons page subtitle compare_ids st =
           (Inr (ErrorPage ''comparison yielded 0 benchmark results'' (Some ''info'') subtitle), st')"
    using Compare_get_split[OF assms(1,2), of url_for get_comparisons page subtitle st] assms(3,4)
    by simp
next
  fix ids :: string
  fix gc :: "string \<Rightarrow> string \<Rightarrow> 'a \<Rightarrow> (comparison list \<times> string option) \<times> 'a"
  fix s :: 'a
  assume v: "\<not> (\<exists>b c. ids = b @ ''...'' @ c)
              \<or> (\<exists>b c. ids = b @ ''...'' @ c
                    \<and> (\<forall>b' c'. ids = b' @ ''...'' @ c' \<longrightarrow> length b \<le> length b')
                    \<and> (b = [] \<or> c = []))"
  have "\<exists>msg. Compare_get url_for gc page subtitle ids s = (Inr (ErrorPage msg None subtitle), s)"
  proof (cases "\<exists>b c. ids = b @ ''...'' @ c")
    case False
    then show ?thesis using Compare_get_no_separator[of ids url_for gc page subtitle s] by blast
  next
    case True
    with v obtain b c where bc: "ids = b @ ''...'' @ c"
      "\<forall>b' c'. ids = b' @ ''...'' @ c' \<longrightarrow> length b \<le> length b'" "b = [] \<or> c = []"
      by blast
    from Compare_get_split[OF bc(1,2), of url_for gc page subtitle s] bc(3)
    show ?thesis by (cases "b = []") simp_all
  qed
  then show "fst (Compare_get url_for gc page subtitle ids s)
                   \<noteq> Inr (ErrorPage ''comparison yielded 0 benchmark results'' (Some ''info'') subtitle)"
    by auto
next
  fix gc :: "string \<Rightarrow> string \<Rightarrow> 'a \<Rightarrow> (comparison list \<times> string option) \<times> 'a"
  fix b2 c2 s cs e s2
  assume "gc b2 c2 s = ((cs, e), s2) \<and> truthy_str e"
  then have g: "gc b2 c2 s = ((cs, e), s2)" and t: "truthy_str e" by simp_all
  from t obtain msg where e: "e = Some msg" by (auto simp: truthy_str_def split: option.splits)
  have "compare_and_render url_for gc page subtitle b2 c2 s =
          (Inr (ErrorPage (''cannot perform comparison: '' @ msg) (Some ''info'') subtitle), s2)"
    using g t e by (simp add: compare_and_render_def Compare_compare_def)
  then show "fst (compare_and_render url_for gc page subtitle b2 c2 s)
                   \<noteq> Inr (ErrorPage ''comparison yielded 0 benchmark results'' (Some ''info'') subtitle)"
    by simp
qed

theorem empty_comparison_is_distinct_witness:
  "Compare_get url_for_path (get_comparisons_fixed [] None) page_args ''Compare Runs'' ''abc...xyz'' 0
     = (Inr (ErrorPage ''comparison yielded 0 benchmark results'' (Some ''info'') ''Compare Runs''), 1)"
proof -
  have f: "str_find ''...'' ''abc...xyz'' = Some (length ''abc'')" by simp
  have 1: "''abc...xyz'' = ''abc'' @ ''...'' @ ''xyz''" by simp
  have 2: "\<forall>b' c'. ''abc...xyz'' = b' @ ''...'' @ c' \<longrightarrow> length ''abc'' \<le> length b'"
  proof (intro allI impI)
    fix b' c' :: string
    assume "''abc...xyz'' = b' @ ''...'' @ c'"
    then show "length ''abc'' \<le> length b'" by (rule first_occurrence_by_find[OF f])
  qed
  have 3: "''abc'' \<noteq> []" and 4: "''xyz'' \<noteq> []" by simp_all
  have 5: "get_comparisons_fixed [] None ''abc'' ''xyz'' 0 = (([], None), 1)"
    by (simp add: get_comparisons_fixed_def)
  have 6: "\<not> truthy_str None" by (simp add: truthy_str_def)
  from empty_comparison_is_distinct[where get_comparisons = "get_comparisons_fixed [] None"
      and st = 0 and url_for = url_for_path and page = page_args and subtitle = "''Compare Runs''",
      OF 1 2 3 4 5 6]
  show ?thesis by (rule conjunct1)
qed

end
